theory Spec2Isabelle
  imports Main "HOL-Library.Multiset"
begin

section \<open>Data model of cmd/main/main.go\<close>

text \<open>
  The Go struct \<^verbatim>\<open>Config\<close> (main.go, lines 22-29). The poll interval is kept as the
  string of the file; \<^verbatim>\<open>main\<close> parses it.
\<close>

record Config =
  GithubToken :: string
  GithubUser :: string
  ReposDir :: string
  PollInterval :: string
  WorkerCount :: int
  WorkQueueSize :: int

text \<open>
  \<^verbatim>\<open>github.Repository\<close>, restricted to the two fields the program dereferences
  (\<^verbatim>\<open>*repo.Name\<close>, \<^verbatim>\<open>*repo.CloneURL\<close>), and the struct \<^verbatim>\<open>RepoTask\<close> (lines 31-34).
\<close>

record Repository =
  Name :: string
  CloneURL :: string

record RepoTask =
  Repo :: Repository
  RepoPath :: string

section \<open>The external operations used by \<^verbatim>\<open>processRepo\<close>\<close>

text \<open>
  \<^verbatim>\<open>os.Stat\<close> followed by \<^verbatim>\<open>os.IsNotExist(err)\<close> distinguishes three results: no
  error, the error "does not exist", and any other error (for example permission denied).
\<close>

datatype stat_result = StatOk | ErrNotExist | StatErr string

text \<open>
  Errors of go-git. The program compares against the two sentinel values
  \<^verbatim>\<open>git.NoErrAlreadyUpToDate\<close> and \<^verbatim>\<open>git.ErrNonFastForwardUpdate\<close>; every other error
  is carried with its message.
\<close>

datatype git_error = NoErrAlreadyUpToDate | ErrNonFastForwardUpdate | GitErr string

fun Error :: "git_error \<Rightarrow> string" where
  "Error NoErrAlreadyUpToDate = ''already up-to-date''"
| "Error ErrNonFastForwardUpdate = ''non-fast-forward update''"
| "Error (GitErr m) = m"

record BasicAuth =
  Username :: string
  Password :: string

record CloneOptions =
  URL :: string
  CloneAuth :: BasicAuth

record PullOptions =
  PullAuth :: BasicAuth

text \<open>
  The file system and the go-git library are not part of the repository. They are taken
  as parameters: a state \<open>'w\<close> of the outside world (local disk and remote), and the five
  calls \<^verbatim>\<open>processRepo\<close> makes, each a function of that state. \<open>'r\<close> is the type of an opened
  repository, \<open>'t\<close> that of a work tree. A result \<open>None\<close> is Go's \<^verbatim>\<open>nil\<close> error.
\<close>

record ('w, 'r, 't) git_ops =
  os_Stat :: "'w \<Rightarrow> string \<Rightarrow> stat_result"
  PlainClone :: "'w \<Rightarrow> string \<Rightarrow> bool \<Rightarrow> CloneOptions \<Rightarrow> git_error option \<times> 'w"
  PlainOpen :: "'w \<Rightarrow> string \<Rightarrow> git_error + 'r"
  Worktree :: "'w \<Rightarrow> 'r \<Rightarrow> git_error + 't"
  Pull :: "'w \<Rightarrow> 't \<Rightarrow> PullOptions \<Rightarrow> git_error option \<times> 'w"

text \<open>
  What a run leaves behind for an observer: the lines written with \<^verbatim>\<open>log.Printf\<close>,
  \<^verbatim>\<open>log.Println\<close> and \<^verbatim>\<open>fmt.Printf\<close> (one constructor per format string, with its
  arguments) and the calls made to go-git.
\<close>

datatype event =
    LogCloning int string
  | LogPulling int string
  | LogUpToDate string
  | LogWorkerError int string string
  | CallPlainClone string bool CloneOptions
  | CallPlainOpen string
  | CallWorktree
  | CallPull PullOptions
  | PrintFound int
  | LogShutdownSignal
  | LogSyncError string
  | LogServiceStopped

section \<open>\<^verbatim>\<open>Worker.processRepo\<close> (main.go, lines 94-131)\<close>

text \<open>
  \<^verbatim>\<open>fmt.Errorf("...: %v", err)\<close>: the text before the verb, then the message of the error.
\<close>

definition Errorf :: "string \<Rightarrow> string \<Rightarrow> string" where
  "Errorf prefix msg = prefix @ msg"

text \<open>
  The function returns Go's error (\<open>None\<close> is \<^verbatim>\<open>nil\<close>, \<open>Some m\<close> the error with
  message \<open>m\<close> built by \<^verbatim>\<open>fmt.Errorf\<close>), the events it produced and the world it
  leaves. The branches are in the order of the source: the clone branch when
  \<^verbatim>\<open>os.IsNotExist\<close> holds of the error of \<^verbatim>\<open>os.Stat\<close>, else open, work tree and pull,
  then the classification of the pull's error.
\<close>

definition processRepo ::
  "('w, 'r, 't) git_ops \<Rightarrow> Config \<Rightarrow> int \<Rightarrow> RepoTask \<Rightarrow> 'w \<Rightarrow> string option \<times> event list \<times> 'w"
where
  "processRepo ops config wid task w =
     (let auth = \<lparr>Username = ''git'', Password = GithubToken config\<rparr> in
      if os_Stat ops w (RepoPath task) = ErrNotExist
      then
        (let opts = \<lparr>URL = CloneURL (Repo task), CloneAuth = auth\<rparr>;
             ev = [LogCloning wid (Name (Repo task)), CallPlainClone (RepoPath task) False opts];
             (err, w') = PlainClone ops w (RepoPath task) False opts
         in case err of
              Some e \<Rightarrow> (Some (Errorf ''failed to clone repository: '' (Error e)), ev, w')
            | None \<Rightarrow> (None, ev, w'))
      else
        (let ev1 = [LogPulling wid (Name (Repo task)), CallPlainOpen (RepoPath task)] in
         case PlainOpen ops w (RepoPath task) of
           Inl err \<Rightarrow> (Some (Errorf ''failed to open repository: '' (Error err)), ev1, w)
         | Inr r \<Rightarrow>
             (let ev2 = ev1 @ [CallWorktree] in
              case Worktree ops w r of
                Inl err \<Rightarrow> (Some (Errorf ''failed to get worktree: '' (Error err)), ev2, w)
              | Inr wt \<Rightarrow>
                  (let opts = \<lparr>PullAuth = auth\<rparr>;
                       ev3 = ev2 @ [CallPull opts];
                       (err, w') = Pull ops w wt opts
                   in if err = Some NoErrAlreadyUpToDate
                      then (None, ev3 @ [LogUpToDate (Name (Repo task))], w')
                      else if err \<noteq> None \<and> err \<noteq> Some ErrNonFastForwardUpdate
                      then (Some (Errorf ''failed to pull repository: '' (Error (the err))), ev3, w')
                      else (None, ev3, w')))))"

text \<open>Whether a run of \<^verbatim>\<open>processRepo\<close> called \<^verbatim>\<open>git.PlainClone\<close>.\<close>

fun is_clone_call :: "event \<Rightarrow> bool" where
  "is_clone_call (CallPlainClone p b opts) = True"
| "is_clone_call e = False"

definition cloned :: "event list \<Rightarrow> bool" where
  "cloned evs = list_ex is_clone_call evs"

section \<open>\<^verbatim>\<open>loadConfig\<close> and the start of \<^verbatim>\<open>main\<close> (main.go, lines 45-60 and 188-200)\<close>

text \<open>
  \<^verbatim>\<open>yaml.Unmarshal\<close> fills the fields of the struct whose keys are in the document and
  leaves the others as they are. The decoded document is a record of optional fields, one
  per \<^verbatim>\<open>yaml\<close> tag of \<^verbatim>\<open>Config\<close>; \<open>None\<close> is an absent key.
\<close>

record yaml_fields =
  yaml_github_token :: "string option"
  yaml_github_user :: "string option"
  yaml_repos_dir :: "string option"
  yaml_poll_interval :: "string option"
  yaml_worker_count :: "int option"
  yaml_queue_size :: "int option"

definition or_keep :: "'a option \<Rightarrow> 'a \<Rightarrow> 'a" where
  "or_keep v old = (case v of None \<Rightarrow> old | Some x \<Rightarrow> x)"

definition Unmarshal_into :: "yaml_fields \<Rightarrow> Config \<Rightarrow> Config" where
  "Unmarshal_into y c =
     \<lparr>GithubToken = or_keep (yaml_github_token y) (GithubToken c),
      GithubUser = or_keep (yaml_github_user y) (GithubUser c),
      ReposDir = or_keep (yaml_repos_dir y) (ReposDir c),
      PollInterval = or_keep (yaml_poll_interval y) (PollInterval c),
      WorkerCount = or_keep (yaml_worker_count y) (WorkerCount c),
      WorkQueueSize = or_keep (yaml_queue_size y) (WorkQueueSize c)\<rparr>"

text \<open>
  \<^verbatim>\<open>os.ReadFile\<close> and the decoder of the YAML library are parameters: \<open>ReadFile\<close> maps a
  path to an error or the bytes, \<open>decode\<close> maps the bytes to an error or the fields found.
  The composite literal of line 51 sets the two defaults and leaves the strings empty.
\<close>

definition loadConfig ::
  "(string \<Rightarrow> string + string) \<Rightarrow> (string \<Rightarrow> string + yaml_fields) \<Rightarrow> string \<Rightarrow> string + Config"
where
  "loadConfig ReadFile decode path =
     (case ReadFile path of
        Inl err \<Rightarrow> Inl err
      | Inr data \<Rightarrow>
          (let config = \<lparr>GithubToken = [], GithubUser = [], ReposDir = [], PollInterval = [],
                          WorkerCount = 5, WorkQueueSize = 100\<rparr>
           in case decode data of
                Inl err \<Rightarrow> Inl err
              | Inr y \<Rightarrow> Inr (Unmarshal_into y config)))"

text \<open>
  The start of \<^verbatim>\<open>main\<close> up to line 205: \<^verbatim>\<open>log.Fatalf\<close> ends the process (\<open>Fatal\<close>),
  otherwise the service runs with the loaded configuration and the parsed interval (in
  nanoseconds, as \<^verbatim>\<open>time.Duration\<close>). \<^verbatim>\<open>time.ParseDuration\<close> is a parameter.
\<close>

datatype startup = Fatal string | Started Config int

definition main_startup ::
  "(string \<Rightarrow> string + string) \<Rightarrow> (string \<Rightarrow> string + yaml_fields) \<Rightarrow> (string \<Rightarrow> string + int)
     \<Rightarrow> string \<Rightarrow> startup"
where
  "main_startup ReadFile decode ParseDuration configPath =
     (case loadConfig ReadFile decode configPath of
        Inl err \<Rightarrow> Fatal (Errorf ''Failed to load config: '' err)
      | Inr config \<Rightarrow>
          (case ParseDuration (PollInterval config) of
             Inl err \<Rightarrow> Fatal (Errorf ''Invalid poll interval: '' err)
           | Inr interval \<Rightarrow> Started config interval))"

section \<open>One sync cycle: \<^verbatim>\<open>syncRepos\<close>, the workers and \<^verbatim>\<open>main\<close>\<close>

text \<open>
  The goroutines of the program run interleaved: the one of line 216, which calls
  \<^verbatim>\<open>syncRepos\<close>, the workers that \<^verbatim>\<open>syncRepos\<close> starts, and \<^verbatim>\<open>main\<close>, which waits for a signal
  or an error. The model is a transition system over the state they share, for one call
  of \<^verbatim>\<open>syncRepos\<close>: when it returns \<^verbatim>\<open>nil\<close> the loop of line 217 logs that the sync is
  finished, sleeps and calls it again with a fresh channel and fresh workers; when it
  returns an error the loop hands the error to \<^verbatim>\<open>main\<close>.
\<close>

subsection \<open>The outside world of a cycle\<close>

text \<open>
  \<^verbatim>\<open>github.RepositoryListOptions\<close> with its embedded \<^verbatim>\<open>ListOptions\<close>, restricted to the
  fields the program sets, and what \<^verbatim>\<open>client.Repositories.List\<close> returns: an error, or a
  page of repositories with \<^verbatim>\<open>resp.NextPage\<close>.
\<close>

record RepositoryListOptions =
  Visibility :: string
  PerPage :: int
  Page :: int

datatype list_response = ListErr string | ListOk "Repository list" int

text \<open>
  Everything a cycle calls outside the repository: go-git and \<^verbatim>\<open>os.Stat\<close> as above,
  \<^verbatim>\<open>os.MkdirAll\<close> (path and permission bits), \<^verbatim>\<open>filepath.Join\<close>, and the listing call of
  the hosting service. The arguments of \<open>Repositories_List\<close> are the access token the client
  was built with (lines 134-138), whether the context passed is already cancelled, the
  account name and the options.

  Two limits of the machine the program runs on belong to the outside world as well.
  \<open>makechan_max\<close> is the largest capacity for which \<^verbatim>\<open>make(chan RepoTask, n)\<close> returns: beyond
  the allocation limit of the runtime (on linux/amd64, a buffer of \<open>2^48 - 96\<close> bytes at 24
  bytes a task) \<^verbatim>\<open>make\<close> panics, and the process dies before that when the buffer does not
  fit in memory. \<open>goroutine_max\<close> is the largest number of workers, each a goroutine with a
  ticker, that fit in memory.
\<close>

record ('w, 'r, 't) env =
  git :: "('w, 'r, 't) git_ops"
  os_MkdirAll :: "'w \<Rightarrow> string \<Rightarrow> nat \<Rightarrow> string option \<times> 'w"
  filepath_Join :: "string \<Rightarrow> string \<Rightarrow> string"
  makechan_max :: int
  goroutine_max :: int
  Repositories_List :: "string \<Rightarrow> bool \<Rightarrow> string \<Rightarrow> RepositoryListOptions \<Rightarrow> list_response"

subsection \<open>The state of a cycle\<close>

text \<open>
  Where the goroutine running \<^verbatim>\<open>syncRepos\<close> (lines 133-186) stands:
  \<^item> \<open>OStart\<close>: before \<^verbatim>\<open>os.MkdirAll\<close> (line 140);
  \<^item> \<open>OList page\<close>: before the call of line 161, with \<^verbatim>\<open>opt.Page = page\<close>;
  \<^item> \<open>OAdd repos next\<close>: at the head of the loop of line 168 with \<open>repos\<close> still to range
    over, \<open>next\<close> being \<^verbatim>\<open>resp.NextPage\<close>;
  \<^item> \<open>OSend task repos next\<close>: after \<^verbatim>\<open>wg.Add(1)\<close>, at the send of line 171;
  \<^item> \<open>OWait\<close>: at \<^verbatim>\<open>wg.Wait()\<close> (line 184);
  \<^item> \<open>OReturned err\<close>: returned with \<open>err\<close> (the deferred \<^verbatim>\<open>close\<close> has run if the channel
    was made);
  \<^item> \<open>OCrashed\<close>: the process died in lines 144-151: \<^verbatim>\<open>make\<close> panicked on the capacity
    ("makechan: size out of range"), or memory ran out.
\<close>

datatype orch_pc =
    OStart
  | OList int
  | OAdd "Repository list" int
  | OSend RepoTask "Repository list" int
  | OWait
  | OReturned "string option"
  | OCrashed

text \<open>
  Where the goroutine of a worker (lines 73-92) stands: at its \<^verbatim>\<open>select\<close>; holding a task
  received (waiting for the tick of its rate limiter, then in \<^verbatim>\<open>processRepo\<close>); back from
  \<^verbatim>\<open>processRepo\<close> and before \<^verbatim>\<open>wg.Done()\<close>; returned.
\<close>

datatype worker_pc = WSelect | WGot RepoTask | WDone RepoTask | WExited

text \<open>
  Where \<^verbatim>\<open>main\<close> stands: at its \<^verbatim>\<open>select\<close> (line 232); after \<^verbatim>\<open>cancel()\<close>; returned, which
  ends the process and every goroutine with it.
\<close>

datatype main_pc = MSelect | MCancelled | MExited

text \<open>
  The state: the three kinds of goroutine, the buffer of \<^verbatim>\<open>tasksChan\<close> (oldest first) and
  whether it is closed, the counter of the \<^verbatim>\<open>sync.WaitGroup\<close>, the world outside, and what
  was logged. The last five fields are history only, read by no step: the listing calls
  made (token, context cancelled, account, options), the tasks for which \<^verbatim>\<open>wg.Add(1)\<close> ran,
  the tasks sent on the channel, the tasks \<^verbatim>\<open>processRepo\<close> returned from with its result,
  and the tasks for which \<^verbatim>\<open>wg.Done()\<close> ran.
\<close>

record 'w state =
  orch :: orch_pc
  totalReposCnt :: int
  workers :: "worker_pc list"
  tasksChan :: "RepoTask list"
  chanClosed :: bool
  wg :: int
  mainpc :: main_pc
  world :: 'w
  trace :: "event list"
  requests :: "(string \<times> bool \<times> string \<times> RepositoryListOptions) list"
  added :: "RepoTask list"
  sent :: "RepoTask list"
  outcomes :: "(RepoTask \<times> string option) list"
  finished :: "RepoTask list"

definition init :: "'w \<Rightarrow> 'w state" where
  "init w =
     \<lparr>orch = OStart, totalReposCnt = 0, workers = [], tasksChan = [], chanClosed = False,
      wg = 0, mainpc = MSelect, world = w, trace = [], requests = [], added = [], sent = [],
      outcomes = [], finished = []\<rparr>"

text \<open>The context \<^verbatim>\<open>ctx\<close> is done once \<^verbatim>\<open>main\<close> has called \<^verbatim>\<open>cancel()\<close>.\<close>

definition ctx_done :: "'w state \<Rightarrow> bool" where
  "ctx_done s = (mainpc s \<noteq> MSelect)"

subsection \<open>The steps of \<^verbatim>\<open>syncRepos\<close>\<close>

text \<open>
  One step of \<^verbatim>\<open>syncRepos\<close> from where it stands; \<open>None\<close> when it is blocked (a send on a
  full buffer, \<^verbatim>\<open>wg.Wait()\<close> on a positive counter) or has returned. The channel is made
  at line 144: \<^verbatim>\<open>make\<close> panics on a negative capacity and on one beyond \<open>makechan_max\<close>, and
  a panic ends the process. The workers are started right after, \<^verbatim>\<open>WorkerCount\<close> of them
  (none when the count is zero or negative); the process dies when they do not fit in
  memory.
\<close>

definition syncRepos_step :: "('w, 'r, 't) env \<Rightarrow> Config \<Rightarrow> 'w state \<Rightarrow> 'w state option" where
  "syncRepos_step e config s =
     (case orch s of
        OStart \<Rightarrow>
          (case os_MkdirAll e (world s) (ReposDir config) 493 of
             (Some err, w') \<Rightarrow>
               Some (s\<lparr>orch := OReturned (Some (Errorf ''failed to create repos directory: '' err)),
                       world := w'\<rparr>)
           | (None, w') \<Rightarrow>
               if WorkQueueSize config < 0 \<or> makechan_max e < WorkQueueSize config
               then Some (s\<lparr>orch := OCrashed, mainpc := MExited, world := w'\<rparr>)
               else if goroutine_max e < WorkerCount config
               then Some (s\<lparr>orch := OCrashed, mainpc := MExited, world := w'\<rparr>)
               else Some (s\<lparr>orch := OList 0,
                            workers := replicate (nat (WorkerCount config)) WSelect,
                            world := w'\<rparr>))
      | OList page \<Rightarrow>
          (let opt = \<lparr>Visibility = ''all'', PerPage = 100, Page = page\<rparr>;
               called = requests s @ [(GithubToken config, ctx_done s, [], opt)]
           in case Repositories_List e (GithubToken config) (ctx_done s) [] opt of
                ListErr err \<Rightarrow>
                  Some (s\<lparr>orch := OReturned (Some (Errorf ''failed to get repositories list: '' err)),
                          chanClosed := True, requests := called\<rparr>)
              | ListOk repos next \<Rightarrow>
                  Some (s\<lparr>orch := OAdd repos next,
                          totalReposCnt := totalReposCnt s + int (length repos),
                          requests := called\<rparr>))
      | OAdd [] next \<Rightarrow>
          if next = 0
          then Some (s\<lparr>orch := OWait, trace := trace s @ [PrintFound (totalReposCnt s)]\<rparr>)
          else Some (s\<lparr>orch := OList next\<rparr>)
      | OAdd (repo # rest) next \<Rightarrow>
          (let task = \<lparr>Repo = repo, RepoPath = filepath_Join e (ReposDir config) (Name repo)\<rparr>
           in Some (s\<lparr>orch := OSend task rest next, wg := wg s + 1, added := added s @ [task]\<rparr>))
      | OSend task rest next \<Rightarrow>
          if int (length (tasksChan s)) < WorkQueueSize config
          then Some (s\<lparr>orch := OAdd rest next, tasksChan := tasksChan s @ [task],
                       sent := sent s @ [task]\<rparr>)
          else None
      | OWait \<Rightarrow>
          if wg s = 0 then Some (s\<lparr>orch := OReturned None, chanClosed := True\<rparr>) else None
      | OReturned err \<Rightarrow> None
      | OCrashed \<Rightarrow> None)"

text \<open>
  The send of line 171 when worker \<open>i\<close> is waiting in its \<^verbatim>\<open>select\<close> and the buffer is
  empty: the task goes to the worker directly. This is the only way a send completes on a
  channel of capacity zero.
\<close>

definition handoff :: "nat \<Rightarrow> 'w state \<Rightarrow> 'w state option" where
  "handoff i s =
     (case orch s of
        OSend task rest next \<Rightarrow>
          if i < length (workers s) \<and> workers s ! i = WSelect \<and> tasksChan s = []
          then Some (s\<lparr>orch := OAdd rest next, workers := (workers s)[i := WGot task],
                       sent := sent s @ [task]\<rparr>)
          else None
      | _ \<Rightarrow> None)"

subsection \<open>The steps of a worker (\<^verbatim>\<open>Worker.start\<close>, lines 73-92)\<close>

text \<open>
  The \<^verbatim>\<open>select\<close> of line 76 has two cases, and Go chooses among the ready ones. The case
  of \<^verbatim>\<open>tasksChan\<close> is ready when the buffer holds a task, or when the channel is closed
  and drained (then \<open>ok\<close> is false and the worker returns).
\<close>

definition select_recv :: "nat \<Rightarrow> 'w state \<Rightarrow> 'w state option" where
  "select_recv i s =
     (if i < length (workers s) \<and> workers s ! i = WSelect
      then (case tasksChan s of
              task # rest \<Rightarrow> Some (s\<lparr>workers := (workers s)[i := WGot task], tasksChan := rest\<rparr>)
            | [] \<Rightarrow> if chanClosed s then Some (s\<lparr>workers := (workers s)[i := WExited]\<rparr>)
                    else None)
      else None)"

text \<open>The case of \<^verbatim>\<open>ctx.Done()\<close> (line 87) is ready once the context is cancelled.\<close>

definition select_ctx_done :: "nat \<Rightarrow> 'w state \<Rightarrow> 'w state option" where
  "select_ctx_done i s =
     (if i < length (workers s) \<and> workers s ! i = WSelect \<and> ctx_done s
      then Some (s\<lparr>workers := (workers s)[i := WExited]\<rparr>)
      else None)"

text \<open>
  Lines 81-86. A worker holding a task waits for the tick of its own ticker, which always
  comes, runs \<^verbatim>\<open>processRepo\<close> and logs its error if there is one; then it calls
  \<^verbatim>\<open>wg.Done()\<close> and goes back to the \<^verbatim>\<open>select\<close>. \<^verbatim>\<open>processRepo\<close> is one step here.
\<close>

definition worker_run :: "('w, 'r, 't) env \<Rightarrow> Config \<Rightarrow> nat \<Rightarrow> 'w state \<Rightarrow> 'w state option" where
  "worker_run e config i s =
     (if i < length (workers s)
      then (case workers s ! i of
              WGot task \<Rightarrow>
                (case processRepo (git e) config (int i) task (world s) of
                   (err, evs, w') \<Rightarrow>
                     Some (s\<lparr>workers := (workers s)[i := WDone task], world := w',
                             trace := trace s @ evs @
                               (case err of
                                  None \<Rightarrow> []
                                | Some m \<Rightarrow> [LogWorkerError (int i) (Name (Repo task)) m]),
                             outcomes := outcomes s @ [(task, err)]\<rparr>))
            | WDone task \<Rightarrow>
                Some (s\<lparr>workers := (workers s)[i := WSelect], wg := wg s - 1,
                        finished := finished s @ [task]\<rparr>)
            | _ \<Rightarrow> None)
      else None)"

subsection \<open>The steps of \<^verbatim>\<open>main\<close> (lines 232-241)\<close>

text \<open>
  \<^verbatim>\<open>main\<close> waits for a signal or for the error of a cycle, which the goroutine of line 216
  sends on \<^verbatim>\<open>errorChan\<close> when \<^verbatim>\<open>syncRepos\<close> returns one. In both cases it logs, calls
  \<^verbatim>\<open>cancel()\<close>, logs again and returns.
\<close>

definition main_signal :: "'w state \<Rightarrow> 'w state option" where
  "main_signal s =
     (if mainpc s = MSelect
      then Some (s\<lparr>mainpc := MCancelled, trace := trace s @ [LogShutdownSignal]\<rparr>)
      else None)"

definition main_sync_error :: "'w state \<Rightarrow> 'w state option" where
  "main_sync_error s =
     (if mainpc s = MSelect
      then (case orch s of
              OReturned (Some err) \<Rightarrow>
                Some (s\<lparr>mainpc := MCancelled, trace := trace s @ [LogSyncError err]\<rparr>)
            | _ \<Rightarrow> None)
      else None)"

definition main_return :: "'w state \<Rightarrow> 'w state option" where
  "main_return s =
     (if mainpc s = MCancelled
      then Some (s\<lparr>mainpc := MExited, trace := trace s @ [LogServiceStopped]\<rparr>)
      else None)"

subsection \<open>Interleaving\<close>

text \<open>
  A schedule is a list of actions, each naming the goroutine that moves and, at a
  \<^verbatim>\<open>select\<close>, the case taken. \<open>fire\<close> is the step an action makes, \<open>None\<close> when the action
  is not enabled. Nothing moves once the process has ended.
\<close>

datatype action =
    Orch
  | Handoff nat
  | Recv nat
  | CtxDone nat
  | Work nat
  | Signal
  | SyncError
  | MainReturn

definition fire :: "('w, 'r, 't) env \<Rightarrow> Config \<Rightarrow> action \<Rightarrow> 'w state \<Rightarrow> 'w state option" where
  "fire e config a s =
     (if mainpc s = MExited then None
      else case a of
        Orch \<Rightarrow> syncRepos_step e config s
      | Handoff i \<Rightarrow> handoff i s
      | Recv i \<Rightarrow> select_recv i s
      | CtxDone i \<Rightarrow> select_ctx_done i s
      | Work i \<Rightarrow> worker_run e config i s
      | Signal \<Rightarrow> main_signal s
      | SyncError \<Rightarrow> main_sync_error s
      | MainReturn \<Rightarrow> main_return s)"

fun run :: "('w, 'r, 't) env \<Rightarrow> Config \<Rightarrow> action list \<Rightarrow> 'w state \<Rightarrow> 'w state option" where
  "run e config [] s = Some s"
| "run e config (a # as) s =
     (case fire e config a s of None \<Rightarrow> None | Some s' \<Rightarrow> run e config as s')"

text \<open>The states a cycle can be in, started in world \<open>w\<close>.\<close>

definition reachable :: "('w, 'r, 't) env \<Rightarrow> Config \<Rightarrow> 'w \<Rightarrow> 'w state \<Rightarrow> bool" where
  "reachable e config w s = (\<exists>as. run e config as (init w) = Some s)"

section \<open>Auxiliary definitions and concrete instances\<close>

subsection \<open>The repo updater\<close>

text \<open>
  The branch of \<^verbatim>\<open>processRepo\<close> taken when the path is not reported missing (lines
  110-128), with the classification of the pull's error written as one case distinction.
  It is proved equal to that branch of \<open>processRepo\<close> below.
\<close>

definition pull_branch ::
  "('w, 'r, 't) git_ops \<Rightarrow> Config \<Rightarrow> int \<Rightarrow> RepoTask \<Rightarrow> 'w \<Rightarrow> string option \<times> event list \<times> 'w"
where
  "pull_branch ops config wid task w =
     (case PlainOpen ops w (RepoPath task) of
        Inl err \<Rightarrow> (Some (Errorf ''failed to open repository: '' (Error err)),
                     [LogPulling wid (Name (Repo task)), CallPlainOpen (RepoPath task)], w)
      | Inr r \<Rightarrow>
          (case Worktree ops w r of
             Inl err \<Rightarrow> (Some (Errorf ''failed to get worktree: '' (Error err)),
                 [LogPulling wid (Name (Repo task)), CallPlainOpen (RepoPath task), CallWorktree], w)
           | Inr wt \<Rightarrow>
               (case Pull ops w wt \<lparr>PullAuth = \<lparr>Username = ''git'', Password = GithubToken config\<rparr>\<rparr> of
                  (err, w') \<Rightarrow>
                    (case err of
                       None \<Rightarrow> None
                     | Some NoErrAlreadyUpToDate \<Rightarrow> None
                     | Some ErrNonFastForwardUpdate \<Rightarrow> None
                     | Some (GitErr m) \<Rightarrow> Some (Errorf ''failed to pull repository: '' m),
                     [LogPulling wid (Name (Repo task)), CallPlainOpen (RepoPath task), CallWorktree,
                      CallPull \<lparr>PullAuth = \<lparr>Username = ''git'', Password = GithubToken config\<rparr>\<rparr>]
                     @ (if err = Some NoErrAlreadyUpToDate then [LogUpToDate (Name (Repo task))] else []),
                     w'))))"



text \<open>
  A mirror that has diverged from its remote: the path exists and opens, every pull
  answers \<^verbatim>\<open>git.ErrNonFastForwardUpdate\<close>, changing nothing, and a clone into the path
  is refused.
\<close>

definition diverged_ops :: "(unit, unit, unit) git_ops" where
  "diverged_ops =
     \<lparr>os_Stat = (\<lambda>w p. StatOk),
      PlainClone = (\<lambda>w p b opts. (Some (GitErr ''repository already exists''), w)),
      PlainOpen = (\<lambda>w p. Inr ()),
      Worktree = (\<lambda>w r. Inr ()),
      Pull = (\<lambda>w t opts. (Some ErrNonFastForwardUpdate, w))\<rparr>"

text \<open>
  A small disk: the world is the list of paths that hold a mirror, each in step with its
  remote. A clone adds the path unless the remote repository is gone; a pull finds nothing
  new; the path \<^verbatim>\<open>repos/locked\<close> cannot be inspected.
\<close>

definition disk_ops :: "(string list, string, string) git_ops" where
  "disk_ops =
     \<lparr>os_Stat = (\<lambda>w p. if p = ''repos/locked'' then StatErr ''permission denied''
                        else if p \<in> set w then StatOk else ErrNotExist),
      PlainClone = (\<lambda>w p b opts.
         if URL opts = ''https://h/gone.git'' then (Some (GitErr ''repository not found''), w)
         else (None, p # w)),
      PlainOpen = (\<lambda>w p. if p \<in> set w then Inr p else Inl (GitErr ''repository does not exist'')),
      Worktree = (\<lambda>w r. Inr r),
      Pull = (\<lambda>w t opts. (Some NoErrAlreadyUpToDate, w))\<rparr>"

definition demo_config :: Config where
  "demo_config = \<lparr>GithubToken = ''tok'', GithubUser = ''alice'', ReposDir = ''repos'',
     PollInterval = ''1h'', WorkerCount = 1, WorkQueueSize = 1\<rparr>"

definition task_a :: RepoTask where
  "task_a = \<lparr>Repo = \<lparr>Name = ''a'', CloneURL = ''https://h/a.git''\<rparr>, RepoPath = ''repos/a''\<rparr>"

definition task_locked :: RepoTask where
  "task_locked = \<lparr>Repo = \<lparr>Name = ''locked'', CloneURL = ''https://h/locked.git''\<rparr>,
     RepoPath = ''repos/locked''\<rparr>"

text \<open>
  A mirror in step with its remote, for a credential: the path is not missing, the
  repository and its work tree open, and a pull answers "already up to date" and changes
  nothing.
\<close>

definition in_step :: "('w, 'r, 't) git_ops \<Rightarrow> PullOptions \<Rightarrow> 'w \<Rightarrow> string \<Rightarrow> bool" where
  "in_step ops popts w path =
     (os_Stat ops w path \<noteq> ErrNotExist
      \<and> (case PlainOpen ops w path of
            Inl err \<Rightarrow> False
          | Inr r \<Rightarrow>
              (case Worktree ops w r of
                 Inl err \<Rightarrow> False
               | Inr wt \<Rightarrow> Pull ops w wt popts = (Some NoErrAlreadyUpToDate, w))))"

text \<open>
  What the idempotence of the updater needs of the library, which is outside the
  repository, while the remote stays as it is and can be reached: a clone that succeeds
  leaves a mirror in step, and so does a pull that succeeds by fast-forward or finds the
  mirror up to date. Nothing is asked of a pull that answers "non-fast-forward".
\<close>

definition keeps_in_step :: "('w, 'r, 't) git_ops \<Rightarrow> bool" where
  "keeps_in_step ops =
     ((\<forall>w path bare copts w'.
         PlainClone ops w path bare copts = (None, w')
         \<longrightarrow> in_step ops \<lparr>PullAuth = CloneAuth copts\<rparr> w' path)
      \<and> (\<forall>w path r wt popts err w'.
           PlainOpen ops w path = Inr r \<and> Worktree ops w r = Inr wt
           \<and> Pull ops w wt popts = (err, w') \<and> (err = None \<or> err = Some NoErrAlreadyUpToDate)
           \<longrightarrow> in_step ops popts w' path))"



subsection \<open>Configuration files\<close>

text \<open>
  Two configuration files: one with zero workers, a queue of capacity zero, a zero interval
  and neither token, account nor directory; one with token, directory and interval only.
  The decoder and \<^verbatim>\<open>time.ParseDuration\<close> are given on the inputs used.
\<close>

definition zero_ReadFile :: "string \<Rightarrow> string + string" where
  "zero_ReadFile path =
     (if path = ''config.yaml'' then Inr ''poll_interval: 0s worker_count: 0 queue_size: 0''
      else Inl ''open: no such file or directory'')"

definition zero_decode :: "string \<Rightarrow> string + yaml_fields" where
  "zero_decode data =
     (if data = ''poll_interval: 0s worker_count: 0 queue_size: 0''
      then Inr \<lparr>yaml_github_token = None, yaml_github_user = None, yaml_repos_dir = None,
                yaml_poll_interval = Some ''0s'', yaml_worker_count = Some 0,
                yaml_queue_size = Some 0\<rparr>
      else if data = ''github_token: tok repos_dir: repos poll_interval: 1h''
      then Inr \<lparr>yaml_github_token = Some ''tok'', yaml_github_user = None,
                yaml_repos_dir = Some ''repos'', yaml_poll_interval = Some ''1h'',
                yaml_worker_count = None, yaml_queue_size = None\<rparr>
      else Inl ''yaml: unmarshal errors'')"

definition some_ParseDuration :: "string \<Rightarrow> string + int" where
  "some_ParseDuration s =
     (if s = ''0s'' then Inr 0
      else if s = ''1h'' then Inr 3600000000000
      else Inl ''time: invalid duration'')"

definition plain_ReadFile :: "string \<Rightarrow> string + string" where
  "plain_ReadFile path =
     (if path = ''config.yaml'' then Inr ''github_token: tok repos_dir: repos poll_interval: 1h''
      else Inl ''open: no such file or directory'')"

subsection \<open>Invariants of a cycle\<close>

text \<open>
  The tasks a worker holds (received and not yet counted down), the tasks it holds with
  \<^verbatim>\<open>processRepo\<close> already returned, and the task \<^verbatim>\<open>syncRepos\<close> has counted but not yet sent.
\<close>

fun holds :: "worker_pc \<Rightarrow> RepoTask list" where
  "holds (WGot task) = [task]"
| "holds (WDone task) = [task]"
| "holds w = []"

fun processed :: "worker_pc \<Rightarrow> RepoTask list" where
  "processed (WDone task) = [task]"
| "processed w = []"

fun at_send :: "orch_pc \<Rightarrow> RepoTask list" where
  "at_send (OSend task rest next) = [task]"
| "at_send pc = []"

text \<open>
  The accounting of the wait group, kept by every step: the counter is the number of
  \<^verbatim>\<open>wg.Add(1)\<close> so far minus the number of \<^verbatim>\<open>wg.Done()\<close>; a task is counted before it is sent;
  every task sent is in the buffer, held by one worker, or finished; \<^verbatim>\<open>processRepo\<close> has
  returned for exactly the finished tasks and those about to be counted down; and a
  cycle that returned \<^verbatim>\<open>nil\<close> left the counter at zero.
\<close>

definition counter_inv :: "'w state \<Rightarrow> bool" where
  "counter_inv s =
     (int (length (added s)) = wg s + int (length (finished s))
      \<and> added s = sent s @ at_send (orch s)
      \<and> mset (sent s) =
          mset (tasksChan s) + mset (concat (map holds (workers s))) + mset (finished s)
      \<and> mset (map fst (outcomes s)) =
          mset (concat (map processed (workers s))) + mset (finished s)
      \<and> (orch s = OStart \<longrightarrow> workers s = [] \<and> tasksChan s = [])
      \<and> (orch s = OReturned None \<longrightarrow> wg s = 0))"

text \<open>
  A listing call as recorded in the history: token, context cancelled, account name,
  options; and what the hosting service answered to it.
\<close>

type_synonym request = "string \<times> bool \<times> string \<times> RepositoryListOptions"

definition response :: "('w, 'r, 't) env \<Rightarrow> request \<Rightarrow> list_response" where
  "response e r =
     (case r of (token, cancelled, user, opt) \<Rightarrow> Repositories_List e token cancelled user opt)"

definition request_page :: "request \<Rightarrow> int" where
  "request_page r = (case r of (token, cancelled, user, opt) \<Rightarrow> Page opt)"

text \<open>The constant arguments of the call of line 161.\<close>

definition well_formed_request :: "Config \<Rightarrow> request \<Rightarrow> bool" where
  "well_formed_request config r =
     (case r of (token, cancelled, user, opt) \<Rightarrow>
        token = GithubToken config \<and> user = [] \<and> Visibility opt = ''all'' \<and> PerPage opt = 100)"

fun page_repos :: "list_response \<Rightarrow> Repository list" where
  "page_repos (ListOk repos next) = repos"
| "page_repos (ListErr err) = []"

fun next_of :: "list_response \<Rightarrow> int option" where
  "next_of (ListOk repos next) = Some next"
| "next_of (ListErr err) = None"

text \<open>The error of the first listing call that failed, if any did.\<close>

fun first_error :: "list_response list \<Rightarrow> string option" where
  "first_error [] = None"
| "first_error (ListErr err # rest) = Some err"
| "first_error (ListOk repos next # rest) = first_error rest"

definition lister_error :: "('w, 'r, 't) env \<Rightarrow> request list \<Rightarrow> string option" where
  "lister_error e rs = first_error (map (response e) rs)"

text \<open>
  The repositories the calls so far returned, in order; the task made of a repository
  (lines 169-174); and the tasks of the current page that \<^verbatim>\<open>syncRepos\<close> has still to send.
\<close>

definition listed :: "('w, 'r, 't) env \<Rightarrow> request list \<Rightarrow> Repository list" where
  "listed e rs = concat (map (\<lambda>r. page_repos (response e r)) rs)"

definition task_of :: "('w, 'r, 't) env \<Rightarrow> Config \<Rightarrow> Repository \<Rightarrow> RepoTask" where
  "task_of e config repo =
     \<lparr>Repo = repo, RepoPath = filepath_Join e (ReposDir config) (Name repo)\<rparr>"

fun pending :: "('w, 'r, 't) env \<Rightarrow> Config \<Rightarrow> orch_pc \<Rightarrow> RepoTask list" where
  "pending e config (OAdd rest next) = map (task_of e config) rest"
| "pending e config (OSend task rest next) = task # map (task_of e config) rest"
| "pending e config pc = []"

text \<open>
  The calls, newest first, follow the pages: the first call asks for page 0, and each
  later one for the \<^verbatim>\<open>NextPage\<close> of the answer before it, which was not zero.
\<close>

fun follows :: "('w, 'r, 't) env \<Rightarrow> request list \<Rightarrow> bool" where
  "follows e [] = True"
| "follows e [r] = (request_page r = 0)"
| "follows e (r # r' # rs) =
     (request_page r \<noteq> 0 \<and> next_of (response e r') = Some (request_page r) \<and> follows e (r' # rs))"

definition last_next :: "('w, 'r, 't) env \<Rightarrow> request list \<Rightarrow> int option" where
  "last_next e rs = (case rev rs of [] \<Rightarrow> None | r # earlier \<Rightarrow> next_of (response e r))"

text \<open>
  What a cycle returns according to the claim: the error of creating the root directory
  if there was one, else the error of the lister if there was one, else \<^verbatim>\<open>nil\<close>. Nothing
  of the tasks' results enters.
\<close>

definition cycle_result :: "('w, 'r, 't) env \<Rightarrow> Config \<Rightarrow> 'w \<Rightarrow> request list \<Rightarrow> string option" where
  "cycle_result e config w rs =
     (case fst (os_MkdirAll e w (ReposDir config) 493) of
        Some err \<Rightarrow> Some (Errorf ''failed to create repos directory: '' err)
      | None \<Rightarrow>
          (case lister_error e rs of
             Some err \<Rightarrow> Some (Errorf ''failed to get repositories list: '' err)
           | None \<Rightarrow> None))"

text \<open>
  What holds at each place of \<^verbatim>\<open>syncRepos\<close>, in terms of the calls made so far, for a cycle
  started in world \<open>w\<close>; and the invariant of the lister as a whole.
\<close>

definition pc_inv :: "('w, 'r, 't) env \<Rightarrow> Config \<Rightarrow> 'w \<Rightarrow> 'w state \<Rightarrow> bool" where
  "pc_inv e config w s =
     (let rs = requests s; made = (fst (os_MkdirAll e w (ReposDir config) 493) = None)
      in case orch s of
           OStart \<Rightarrow> rs = [] \<and> world s = w \<and> workers s = []
         | OList page \<Rightarrow>
             made \<and> lister_error e rs = None
             \<and> (if rs = [] then page = 0 else page \<noteq> 0 \<and> last_next e rs = Some page)
         | OAdd rest next \<Rightarrow> made \<and> lister_error e rs = None \<and> last_next e rs = Some next
         | OSend task rest next \<Rightarrow> made \<and> lister_error e rs = None \<and> last_next e rs = Some next
         | OWait \<Rightarrow>
             made \<and> lister_error e rs = None \<and> last_next e rs = Some 0
             \<and> PrintFound (totalReposCnt s) \<in> set (trace s)
         | OReturned err \<Rightarrow>
             err = cycle_result e config w rs
             \<and> (if err = None
                 then last_next e rs = Some 0 \<and> PrintFound (totalReposCnt s) \<in> set (trace s)
                 else \<not> made \<and> rs = [] \<or> made \<and> lister_error e rs \<noteq> None)
         | OCrashed \<Rightarrow> made \<and> rs = [])"

definition lister_inv :: "('w, 'r, 't) env \<Rightarrow> Config \<Rightarrow> 'w \<Rightarrow> 'w state \<Rightarrow> bool" where
  "lister_inv e config w s =
     (list_all (well_formed_request config) (requests s)
      \<and> follows e (rev (requests s))
      \<and> sent s @ pending e config (orch s) = map (task_of e config) (listed e (requests s))
      \<and> totalReposCnt s = int (length (listed e (requests s)))
      \<and> pc_inv e config w s)"

subsection \<open>A small cycle\<close>

text \<open>
  Two repositories on one page, the second of which cannot be cloned; one worker and a
  queue of capacity one (\<open>demo_config\<close>); a schedule that runs the cycle to its return.
\<close>

definition repo_a :: Repository where
  "repo_a = \<lparr>Name = ''a'', CloneURL = ''https://h/a.git''\<rparr>"

definition repo_gone :: Repository where
  "repo_gone = \<lparr>Name = ''gone'', CloneURL = ''https://h/gone.git''\<rparr>"

definition demo_env :: "(string list, string, string) env" where
  "demo_env =
     \<lparr>git = disk_ops,
      os_MkdirAll = (\<lambda>w path perm. (None, w)),
      filepath_Join = (\<lambda>dir name. dir @ ''/'' @ name),
      makechan_max = 11728124029606,
      goroutine_max = 100000,
      Repositories_List = (\<lambda>token cancelled user opt.
         if cancelled then ListErr ''context canceled''
         else if Page opt = 0 then ListOk [repo_a, repo_gone] 0
         else ListErr ''404 Not Found'')\<rparr>"

text \<open>A hosting service whose second page fails.\<close>

definition flaky_env :: "(string list, string, string) env" where
  "flaky_env =
     \<lparr>git = disk_ops,
      os_MkdirAll = (\<lambda>w path perm. (None, w)),
      filepath_Join = (\<lambda>dir name. dir @ ''/'' @ name),
      makechan_max = 11728124029606,
      goroutine_max = 100000,
      Repositories_List = (\<lambda>token cancelled user opt.
         if Page opt = 0 then ListOk [repo_a] 2 else ListErr ''503 Service Unavailable'')\<rparr>"

definition demo_schedule :: "action list" where
  "demo_schedule =
     [Orch, Orch, Orch, Orch, Orch, Recv 0, Orch, Orch,
      Work 0, Work 0, Recv 0, Work 0, Work 0, Orch]"


text \<open>
  The errors the workers logged (repository name and message), and the errors
  \<^verbatim>\<open>processRepo\<close> returned, both in order.
\<close>

fun worker_errors :: "event list \<Rightarrow> (string \<times> string) list" where
  "worker_errors [] = []"
| "worker_errors (LogWorkerError i name m # evs) = (name, m) # worker_errors evs"
| "worker_errors (ev # evs) = worker_errors evs"

fun task_errors :: "(RepoTask \<times> string option) list \<Rightarrow> (string \<times> string) list" where
  "task_errors [] = []"
| "task_errors ((task, Some m) # rest) = (Name (Repo task), m) # task_errors rest"
| "task_errors ((task, None) # rest) = task_errors rest"

definition log_inv :: "'w state \<Rightarrow> bool" where
  "log_inv s = (worker_errors (trace s) = task_errors (outcomes s))"

text \<open>The state the small cycle ends in.\<close>

definition demo_final :: "string list state" where
  "demo_final =
     \<lparr>orch = OReturned None, totalReposCnt = 2, workers = [WSelect], tasksChan = [],
      chanClosed = True, wg = 0, mainpc = MSelect, world = [''repos/a''],
      trace =
        [PrintFound 2, LogCloning 0 ''a'',
         CallPlainClone ''repos/a'' False
           \<lparr>URL = ''https://h/a.git'', CloneAuth = \<lparr>Username = ''git'', Password = ''tok''\<rparr>\<rparr>,
         LogCloning 0 ''gone'',
         CallPlainClone ''repos/gone'' False
           \<lparr>URL = ''https://h/gone.git'', CloneAuth = \<lparr>Username = ''git'', Password = ''tok''\<rparr>\<rparr>,
         LogWorkerError 0 ''gone'' ''failed to clone repository: repository not found''],
      requests = [(''tok'', False, [], \<lparr>Visibility = ''all'', PerPage = 100, Page = 0\<rparr>)],
      added = [task_of demo_env demo_config repo_a, task_of demo_env demo_config repo_gone],
      sent = [task_of demo_env demo_config repo_a, task_of demo_env demo_config repo_gone],
      outcomes =
        [(task_of demo_env demo_config repo_a, None),
         (task_of demo_env demo_config repo_gone,
          Some ''failed to clone repository: repository not found'')],
      finished = [task_of demo_env demo_config repo_a, task_of demo_env demo_config repo_gone]\<rparr>"

subsection \<open>Three accounts\<close>

text \<open>
  A hosting service with three accounts: the listing for the empty account name is the
  listing of the owner of the token.
\<close>

definition repo_alice :: Repository where
  "repo_alice = \<lparr>Name = ''alice-notes'', CloneURL = ''https://h/alice/notes.git''\<rparr>"

definition repo_bob :: Repository where
  "repo_bob = \<lparr>Name = ''bob-site'', CloneURL = ''https://h/bob/site.git''\<rparr>"

definition accounts_env :: "(string list, string, string) env" where
  "accounts_env =
     \<lparr>git = disk_ops,
      os_MkdirAll = (\<lambda>w path perm. (None, w)),
      filepath_Join = (\<lambda>dir name. dir @ ''/'' @ name),
      makechan_max = 11728124029606,
      goroutine_max = 100000,
      Repositories_List = (\<lambda>token cancelled user opt.
         if user = ''alice'' then ListOk [repo_alice] 0
         else if user = ''bob'' then ListOk [repo_bob] 0
         else ListOk [repo_a] 0)\<rparr>"

definition listed_state :: "string list state" where
  "listed_state =
     \<lparr>orch = OAdd [repo_a] 0, totalReposCnt = 1, workers = [WSelect], tasksChan = [],
      chanClosed = False, wg = 0, mainpc = MSelect, world = [], trace = [],
      requests = [(''tok'', False, [], \<lparr>Visibility = ''all'', PerPage = 100, Page = 0\<rparr>)],
      added = [], sent = [], outcomes = [], finished = []\<rparr>"

subsection \<open>Progress and termination of a cycle\<close>

text \<open>The places where \<^verbatim>\<open>syncRepos\<close> has made the channel and has not returned.\<close>

fun running :: "orch_pc \<Rightarrow> bool" where
  "running (OList page) = True"
| "running (OAdd rest next) = True"
| "running (OSend task rest next) = True"
| "running OWait = True"
| "running pc = False"

text \<open>
  The pool while \<^verbatim>\<open>syncRepos\<close> runs: as many workers as configured, the channel open; no
  worker has returned unless the context is cancelled or the channel closed; a panic ends
  the process.
\<close>

definition pool_inv :: "Config \<Rightarrow> 'w state \<Rightarrow> bool" where
  "pool_inv config s =
     ((orch s = OStart \<longrightarrow> workers s = [] \<and> \<not> chanClosed s)
      \<and> (running (orch s) \<longrightarrow>
           length (workers s) = nat (WorkerCount config) \<and> \<not> chanClosed s
           \<and> 0 \<le> WorkQueueSize config)
      \<and> (\<not> ctx_done s \<and> \<not> chanClosed s \<longrightarrow> WExited \<notin> set (workers s))
      \<and> (orch s = OCrashed \<longrightarrow> mainpc s = MExited))"

text \<open>
  The channel and the workers fit in the machine: \<^verbatim>\<open>make\<close> returns and the workers start.
\<close>

definition pool_fits :: "('w, 'r, 't) env \<Rightarrow> Config \<Rightarrow> bool" where
  "pool_fits e config =
     (0 \<le> WorkQueueSize config \<and> WorkQueueSize config \<le> makechan_max e
      \<and> WorkerCount config \<le> goroutine_max e)"

text \<open>
  The listing ends: some rank of the pages goes down from each page to the next one the
  service names. (For a service that numbers its pages 1 to n, n minus the page.)
\<close>

definition paginates :: "('w, 'r, 't) env \<Rightarrow> Config \<Rightarrow> (int \<Rightarrow> nat) \<Rightarrow> bool" where
  "paginates e config rank =
     (\<forall>cancelled page repos next.
        Repositories_List e (GithubToken config) cancelled []
          \<lparr>Visibility = ''all'', PerPage = 100, Page = page\<rparr> = ListOk repos next \<and> next \<noteq> 0
        \<longrightarrow> rank next < rank page)"

text \<open>
  The order in which every step goes down: first the start, then the rank of the page,
  then the place within the page, then the work left in the pool, then \<^verbatim>\<open>main\<close>.
\<close>

fun worker_weight :: "worker_pc \<Rightarrow> nat" where
  "worker_weight WExited = 0"
| "worker_weight WSelect = 1"
| "worker_weight (WDone task) = 2"
| "worker_weight (WGot task) = 3"

definition m_start :: "'w state \<Rightarrow> nat" where
  "m_start s = (if orch s = OStart then 1 else 0)"

definition m_pages :: "(int \<Rightarrow> nat) \<Rightarrow> 'w state \<Rightarrow> nat" where
  "m_pages rank s =
     (case orch s of
        OList page \<Rightarrow> Suc (rank page)
      | OAdd rest next \<Rightarrow> if next = 0 then 0 else Suc (rank next)
      | OSend task rest next \<Rightarrow> if next = 0 then 0 else Suc (rank next)
      | _ \<Rightarrow> 0)"

definition m_local :: "'w state \<Rightarrow> nat" where
  "m_local s =
     (case orch s of
        OAdd rest next \<Rightarrow> 2 + 2 * length rest
      | OSend task rest next \<Rightarrow> 3 + 2 * length rest
      | OWait \<Rightarrow> 1
      | _ \<Rightarrow> 0)"

definition m_pool :: "'w state \<Rightarrow> nat" where
  "m_pool s = 3 * length (tasksChan s) + sum_list (map worker_weight (workers s))"

definition m_main :: "'w state \<Rightarrow> nat" where
  "m_main s = (case mainpc s of MSelect \<Rightarrow> 2 | MCancelled \<Rightarrow> 1 | MExited \<Rightarrow> 0)"

definition cycle_order :: "(int \<Rightarrow> nat) \<Rightarrow> ('w state \<times> 'w state) set" where
  "cycle_order rank = measures [m_start, m_pages rank, m_local, m_pool, m_main]"

subsection \<open>The listing of an account\<close>






section \<open>Properties of the repo updater\<close>

lemma cloned_simps [simp]:
  "cloned [] = False" "cloned (e # es) = (is_clone_call e \<or> cloned es)"
  "cloned (xs @ ys) = (cloned xs \<or> cloned ys)"
  by (auto simp: cloned_def)


lemma processRepo_not_exist:
  "os_Stat ops w (RepoPath task) = ErrNotExist \<Longrightarrow>
   processRepo ops config wid task w =
     (case PlainClone ops w (RepoPath task) False
        \<lparr>URL = CloneURL (Repo task), CloneAuth = \<lparr>Username = ''git'', Password = GithubToken config\<rparr>\<rparr> of
        (err, w') \<Rightarrow>
          (map_option (\<lambda>e. Errorf ''failed to clone repository: '' (Error e)) err,
           [LogCloning wid (Name (Repo task)), CallPlainClone (RepoPath task) False
             \<lparr>URL = CloneURL (Repo task), CloneAuth = \<lparr>Username = ''git'', Password = GithubToken config\<rparr>\<rparr>],
           w'))"
  by (simp add: processRepo_def Let_def split: prod.splits option.splits)

lemma processRepo_else:
  "os_Stat ops w (RepoPath task) \<noteq> ErrNotExist \<Longrightarrow>
   processRepo ops config wid task w = pull_branch ops config wid task w"
  by (simp add: processRepo_def pull_branch_def Let_def
      split: prod.splits option.splits sum.splits git_error.splits)

lemma pull_branch_events:
  "pull_branch ops config wid task w = (res, evs, w') \<Longrightarrow>
   \<not> cloned evs \<and> CallPlainOpen (RepoPath task) \<in> set evs"
  by (auto simp: pull_branch_def split: sum.splits prod.splits if_splits)

lemma pull_branch_os_Stat [simp]:
  "pull_branch (ops\<lparr>os_Stat := f\<rparr>) config wid task w = pull_branch ops config wid task w"
  by (simp add: pull_branch_def split: sum.splits prod.splits)

lemma pull_branch_error:
  "pull_branch ops config wid task w = (Some msg, evs, w') \<Longrightarrow>
   \<exists>e. msg = Errorf ''failed to open repository: '' (Error e)
     \<or> msg = Errorf ''failed to get worktree: '' (Error e)
     \<or> msg = Errorf ''failed to pull repository: '' (Error e)"
  unfolding pull_branch_def
  by (auto split: sum.splits prod.splits option.splits git_error.splits)
     (metis Error.simps(3))

text \<open>
  Claim C2. For every call of \<^verbatim>\<open>processRepo\<close>: when \<^verbatim>\<open>os.Stat\<close> reports that the local path
  does not exist, it clones from the clone URL of the descriptor with the user \<^verbatim>\<open>git\<close> and
  the configured token, leaves the world as the clone left it, and returns an error
  exactly when the clone fails (the message wrapped as "failed to clone repository").
  When the path exists it does not clone: it opens the repository; an error of the open
  or of the work tree is returned and nothing is changed; otherwise it pulls with the same
  credential and makes no further call. A pull without error is success; "already up to
  date" is success and is logged; a non-fast-forward result is success and is not logged,
  the mirror staying as the pull left it; any other error of the pull is returned.
\<close>

theorem processRepo_update:
  "processRepo ops config wid task w = (res, evs, w') \<Longrightarrow>
   (let path = RepoPath task;
        auth = \<lparr>Username = ''git'', Password = GithubToken config\<rparr>;
        copts = \<lparr>URL = CloneURL (Repo task), CloneAuth = auth\<rparr>;
        popts = \<lparr>PullAuth = auth\<rparr>
    in (os_Stat ops w path = ErrNotExist \<longrightarrow>
          CallPlainClone path False copts \<in> set evs
          \<and> w' = snd (PlainClone ops w path False copts)
          \<and> (case fst (PlainClone ops w path False copts) of
               None \<Rightarrow> res = None
             | Some e \<Rightarrow> res = Some (Errorf ''failed to clone repository: '' (Error e))))
     \<and> (os_Stat ops w path = StatOk \<longrightarrow>
          \<not> cloned evs \<and> CallPlainOpen path \<in> set evs
          \<and> (case PlainOpen ops w path of
               Inl e \<Rightarrow> res = Some (Errorf ''failed to open repository: '' (Error e)) \<and> w' = w
             | Inr r \<Rightarrow>
                 (case Worktree ops w r of
                    Inl e \<Rightarrow> res = Some (Errorf ''failed to get worktree: '' (Error e)) \<and> w' = w
                  | Inr wt \<Rightarrow>
                      CallPull popts \<in> set evs \<and> w' = snd (Pull ops w wt popts)
                      \<and> (case fst (Pull ops w wt popts) of
                           None \<Rightarrow> res = None
                         | Some NoErrAlreadyUpToDate \<Rightarrow>
                             res = None \<and> LogUpToDate (Name (Repo task)) \<in> set evs
                         | Some ErrNonFastForwardUpdate \<Rightarrow>
                             res = None \<and> LogUpToDate (Name (Repo task)) \<notin> set evs
                         | Some (GitErr m) \<Rightarrow>
                             res = Some (Errorf ''failed to pull repository: '' m))))))"
  apply (unfold Let_def)
  apply (rule conjI; rule impI)
  subgoal by (auto simp: processRepo_not_exist split: prod.splits option.splits)
  subgoal
    apply (simp add: processRepo_else)
    apply (auto simp: pull_branch_def split: sum.splits prod.splits option.splits git_error.splits)
    done
  done

text \<open>
  The theorem of C2 at work on the small disk: a fresh path is cloned, and the next call
  on the same path pulls and finds it up to date.
\<close>

theorem processRepo_update_witness:
  "processRepo disk_ops demo_config 0 task_a [] =
     (None, [LogCloning 0 ''a'', CallPlainClone ''repos/a'' False
        \<lparr>URL = ''https://h/a.git'', CloneAuth = \<lparr>Username = ''git'', Password = ''tok''\<rparr>\<rparr>], [''repos/a''])
   \<and> os_Stat disk_ops [] (RepoPath task_a) = ErrNotExist
   \<and> processRepo disk_ops demo_config 0 task_a [''repos/a''] =
     (None, [LogPulling 0 ''a'', CallPlainOpen ''repos/a'', CallWorktree,
         CallPull \<lparr>PullAuth = \<lparr>Username = ''git'', Password = ''tok''\<rparr>\<rparr>, LogUpToDate ''a''], [''repos/a''])
   \<and> os_Stat disk_ops [''repos/a''] (RepoPath task_a) = StatOk"
  using processRepo_update [of disk_ops demo_config 0 task_a "[]" None
      "[LogCloning 0 ''a'', CallPlainClone ''repos/a'' False
        \<lparr>URL = ''https://h/a.git'', CloneAuth = \<lparr>Username = ''git'', Password = ''tok''\<rparr>\<rparr>]" "[''repos/a'']"]
  by (simp add: processRepo_def disk_ops_def demo_config_def task_a_def)

text \<open>
  Claim C10. A run of \<^verbatim>\<open>processRepo\<close> calls \<^verbatim>\<open>git.PlainClone\<close> exactly when \<^verbatim>\<open>os.Stat\<close>
  reported "does not exist", and then it does nothing but log and clone. When \<^verbatim>\<open>os.Stat\<close>
  fails with any other error the run treats the path as an existing repository: it calls
  \<^verbatim>\<open>git.PlainOpen\<close> on the path; if that fails it returns "failed to open repository"
  with the error of the open, having changed nothing; else it asks for the work tree and
  returns "failed to get worktree" with its error if that fails; else it pulls with the
  user \<^verbatim>\<open>git\<close> and the configured token, leaves the world as the pull left it, succeeds
  when the pull succeeds, is up to date (which it logs) or is not a fast-forward, and
  returns "failed to pull repository" with the error of the pull otherwise. The error of
  \<^verbatim>\<open>os.Stat\<close> itself is dropped.
\<close>

theorem clone_only_when_not_exist:
  "processRepo ops config wid task w = (res, evs, w') \<Longrightarrow>
   (let path = RepoPath task; name = Name (Repo task);
        auth = \<lparr>Username = ''git'', Password = GithubToken config\<rparr>;
        copts = \<lparr>URL = CloneURL (Repo task), CloneAuth = auth\<rparr>;
        popts = \<lparr>PullAuth = auth\<rparr>
    in (cloned evs \<longleftrightarrow> os_Stat ops w path = ErrNotExist)
     \<and> (os_Stat ops w path = ErrNotExist \<longrightarrow>
          evs = [LogCloning wid name, CallPlainClone path False copts]
          \<and> w' = snd (PlainClone ops w path False copts))
     \<and> (os_Stat ops w path = StatErr m \<longrightarrow>
          (case PlainOpen ops w path of
             Inl e \<Rightarrow>
               res = Some (Errorf ''failed to open repository: '' (Error e))
               \<and> evs = [LogPulling wid name, CallPlainOpen path] \<and> w' = w
           | Inr r \<Rightarrow>
               (case Worktree ops w r of
                  Inl e \<Rightarrow>
                    res = Some (Errorf ''failed to get worktree: '' (Error e))
                    \<and> evs = [LogPulling wid name, CallPlainOpen path, CallWorktree] \<and> w' = w
                | Inr wt \<Rightarrow>
                    w' = snd (Pull ops w wt popts)
                    \<and> evs = [LogPulling wid name, CallPlainOpen path, CallWorktree, CallPull popts]
                        @ (if fst (Pull ops w wt popts) = Some NoErrAlreadyUpToDate
                           then [LogUpToDate name] else [])
                    \<and> res = (case fst (Pull ops w wt popts) of
                               None \<Rightarrow> None
                             | Some NoErrAlreadyUpToDate \<Rightarrow> None
                             | Some ErrNonFastForwardUpdate \<Rightarrow> None
                             | Some (GitErr msg) \<Rightarrow>
                                 Some (Errorf ''failed to pull repository: '' msg))))))"
  apply (unfold Let_def)
  apply (cases "os_Stat ops w (RepoPath task) = ErrNotExist")
  subgoal by (auto simp: processRepo_not_exist split: prod.splits)
  subgoal
    apply (simp add: processRepo_else)
    apply (frule pull_branch_events)
    apply (auto simp: pull_branch_def split: sum.splits prod.splits)
    done
  done

text \<open>
  The theorem of C10 on a path that cannot be inspected (permission denied): when it
  holds no repository the open fails and that is the error returned; when it holds one
  the run opens it and pulls.
\<close>

theorem clone_only_when_not_exist_witness:
  "os_Stat disk_ops [] (RepoPath task_locked) = StatErr ''permission denied''
   \<and> processRepo disk_ops demo_config 0 task_locked [] =
     (Some (Errorf ''failed to open repository: '' ''repository does not exist''),
      [LogPulling 0 ''locked'', CallPlainOpen ''repos/locked''], [])
   \<and> os_Stat disk_ops [''repos/locked''] (RepoPath task_locked) = StatErr ''permission denied''
   \<and> processRepo disk_ops demo_config 0 task_locked [''repos/locked''] =
     (None,
      [LogPulling 0 ''locked'', CallPlainOpen ''repos/locked'', CallWorktree,
       CallPull \<lparr>PullAuth = \<lparr>Username = ''git'', Password = ''tok''\<rparr>\<rparr>, LogUpToDate ''locked''],
      [''repos/locked''])
   \<and> \<not> cloned [LogPulling 0 ''locked'', CallPlainOpen ''repos/locked'']"
  using clone_only_when_not_exist [of disk_ops demo_config 0 task_locked "[]"
      "Some (Errorf ''failed to open repository: '' ''repository does not exist'')"
      "[LogPulling 0 ''locked'', CallPlainOpen ''repos/locked'']" "[]" "''permission denied''"]
    clone_only_when_not_exist [of disk_ops demo_config 0 task_locked "[''repos/locked'']" None
      "[LogPulling 0 ''locked'', CallPlainOpen ''repos/locked'', CallWorktree,
        CallPull \<lparr>PullAuth = \<lparr>Username = ''git'', Password = ''tok''\<rparr>\<rparr>, LogUpToDate ''locked'']"
      "[''repos/locked'']" "''permission denied''"]
  by (simp add: processRepo_def disk_ops_def demo_config_def task_locked_def)



lemma keeps_in_step_diverged_ops: "keeps_in_step diverged_ops"
  by (simp add: keeps_in_step_def diverged_ops_def)





section \<open>Properties of the start-up\<close>

text \<open>
  Claim C7 as stated fails: a file with zero workers, capacity zero, a zero interval and
  no token, account or directory is accepted, and the service starts with it.
\<close>

theorem startup_unvalidated_counterexample:
  "main_startup zero_ReadFile zero_decode some_ParseDuration ''config.yaml'' =
     Started \<lparr>GithubToken = [], GithubUser = [], ReposDir = [], PollInterval = ''0s'',
              WorkerCount = 0, WorkQueueSize = 0\<rparr> 0"
  by (simp add: main_startup_def loadConfig_def Unmarshal_into_def or_keep_def zero_ReadFile_def
      zero_decode_def some_ParseDuration_def)

text \<open>
  Claim C7, amended. When the service starts, the file was read and decoded, the poll
  interval parsed, the worker count is the one of the file or 5 when the file has none,
  the queue capacity the one of the file or 100, and every other field the one of the
  file or empty; no bound is checked. The start is fatal in exactly three cases: the file
  cannot be read, it cannot be decoded, or the poll interval (empty when absent) does not
  parse.
\<close>

theorem startup_accepts:
  "main_startup ReadFile decode ParseDuration path = st \<Longrightarrow>
   (case st of
      Started config interval \<Rightarrow>
        (\<exists>data y. ReadFile path = Inr data \<and> decode data = Inr y
           \<and> WorkerCount config = or_keep (yaml_worker_count y) 5
           \<and> WorkQueueSize config = or_keep (yaml_queue_size y) 100
           \<and> GithubToken config = or_keep (yaml_github_token y) []
           \<and> GithubUser config = or_keep (yaml_github_user y) []
           \<and> ReposDir config = or_keep (yaml_repos_dir y) []
           \<and> PollInterval config = or_keep (yaml_poll_interval y) []
           \<and> ParseDuration (PollInterval config) = Inr interval)
    | Fatal msg \<Rightarrow>
        (\<exists>err. ReadFile path = Inl err \<and> msg = Errorf ''Failed to load config: '' err)
        \<or> (\<exists>data err. ReadFile path = Inr data \<and> decode data = Inl err
              \<and> msg = Errorf ''Failed to load config: '' err)
        \<or> (\<exists>data y err. ReadFile path = Inr data \<and> decode data = Inr y
              \<and> ParseDuration (or_keep (yaml_poll_interval y) []) = Inl err
              \<and> msg = Errorf ''Invalid poll interval: '' err))"
  by (auto simp: main_startup_def loadConfig_def Unmarshal_into_def split: sum.splits)

text \<open>
  The amended C7 on a file with token, directory and interval only: the defaults 5 and
  100 are kept; on a missing file the start is fatal.
\<close>

theorem startup_accepts_witness:
  "main_startup plain_ReadFile zero_decode some_ParseDuration ''config.yaml'' =
     Started \<lparr>GithubToken = ''tok'', GithubUser = [], ReposDir = ''repos'', PollInterval = ''1h'',
              WorkerCount = 5, WorkQueueSize = 100\<rparr> 3600000000000
   \<and> main_startup plain_ReadFile zero_decode some_ParseDuration ''missing.yaml'' =
     Fatal (Errorf ''Failed to load config: '' ''open: no such file or directory'')"
  using startup_accepts [of plain_ReadFile zero_decode some_ParseDuration "''config.yaml''"
      "Started \<lparr>GithubToken = ''tok'', GithubUser = [], ReposDir = ''repos'', PollInterval = ''1h'',
              WorkerCount = 5, WorkQueueSize = 100\<rparr> 3600000000000"]
  by (simp add: main_startup_def loadConfig_def Unmarshal_into_def or_keep_def plain_ReadFile_def
      zero_decode_def some_ParseDuration_def)

section \<open>Invariants of a cycle: the counter\<close>

lemma mset_holds_update:
  "i < length ws \<Longrightarrow>
   mset (concat (map holds (ws[i := w]))) + mset (holds (ws ! i)) =
   mset (concat (map holds ws)) + mset (holds w)"
proof (induction ws arbitrary: i)
  case Nil
  then show ?case by simp
next
  case (Cons a ws)
  then show ?case by (cases i) (simp_all add: ac_simps)
qed

lemma mset_processed_update:
  "i < length ws \<Longrightarrow>
   mset (concat (map processed (ws[i := w]))) + mset (processed (ws ! i)) =
   mset (concat (map processed ws)) + mset (processed w)"
proof (induction ws arbitrary: i)
  case Nil
  then show ?case by simp
next
  case (Cons a ws)
  then show ?case by (cases i) (simp_all add: ac_simps)
qed

lemma holds_replicate [simp]: "concat (map holds (replicate n WSelect)) = []"
  by (induction n) simp_all

lemma processed_replicate [simp]: "concat (map processed (replicate n WSelect)) = []"
  by (induction n) simp_all

lemma counter_inv_init: "counter_inv (init w)"
  by (simp add: counter_inv_def init_def)

lemma counter_inv_syncRepos_step:
  "counter_inv s \<Longrightarrow> syncRepos_step e config s = Some s' \<Longrightarrow> counter_inv s'"
  by (auto simp: counter_inv_def syncRepos_step_def Let_def
      split: orch_pc.splits list.splits prod.splits option.splits if_splits list_response.splits)


lemma counter_inv_wg:
  "counter_inv s \<Longrightarrow>
   wg s = int (length (tasksChan s)) + int (length (concat (map holds (workers s))))
          + int (length (at_send (orch s)))"
proof -
  assume inv: "counter_inv s"
  from inv have "mset (sent s) =
      mset (tasksChan s) + mset (concat (map holds (workers s))) + mset (finished s)"
    unfolding counter_inv_def by blast
  then have "size (mset (sent s)) =
      size (mset (tasksChan s) + mset (concat (map holds (workers s))) + mset (finished s))"
    by simp
  then have "length (sent s) =
      length (tasksChan s) + length (concat (map holds (workers s))) + length (finished s)"
    by simp
  moreover from inv have "added s = sent s @ at_send (orch s)"
    unfolding counter_inv_def by blast
  then have "length (added s) = length (sent s) + length (at_send (orch s))"
    by simp
  moreover from inv have "int (length (added s)) = wg s + int (length (finished s))"
    unfolding counter_inv_def by blast
  ultimately show ?thesis by simp
qed

lemma holds_nth_length:
  "i < length ws \<Longrightarrow> length (holds (ws ! i)) \<le> length (concat (map holds ws))"
proof (induction ws arbitrary: i)
  case Nil
  then show ?case by simp
next
  case (Cons a ws)
  then show ?case by (cases i) (simp_all add: le_SucI trans_le_add2)
qed

lemma counter_inv_handoff:
  "counter_inv s \<Longrightarrow> handoff i s = Some s' \<Longrightarrow> counter_inv s'"
  using mset_holds_update [of i "workers s"] mset_processed_update [of i "workers s"]
  by (auto simp: counter_inv_def handoff_def split: orch_pc.splits if_splits)

lemma counter_inv_select_recv:
  "counter_inv s \<Longrightarrow> select_recv i s = Some s' \<Longrightarrow> counter_inv s'"
  using mset_holds_update [of i "workers s"] mset_processed_update [of i "workers s"]
  by (auto simp: counter_inv_def select_recv_def split: list.splits if_splits)

lemma counter_inv_select_ctx_done:
  "counter_inv s \<Longrightarrow> select_ctx_done i s = Some s' \<Longrightarrow> counter_inv s'"
  using mset_holds_update [of i "workers s"] mset_processed_update [of i "workers s"]
  by (auto simp: counter_inv_def select_ctx_done_def split: if_splits)

lemma counter_inv_worker_run:
  assumes inv: "counter_inv s" and step: "worker_run e config i s = Some s'"
  shows "counter_inv s'"
proof -
  from step have i: "i < length (workers s)"
    by (simp add: worker_run_def split: if_splits)
  from step consider
      (got) task where "workers s ! i = WGot task"
    | (fin) task where "workers s ! i = WDone task"
    by (cases "workers s ! i") (simp_all add: worker_run_def i)
  then show ?thesis
  proof cases
    case got
    with inv step i mset_holds_update [of i "workers s" "WDone task"]
      mset_processed_update [of i "workers s" "WDone task"]
    show ?thesis
      by (auto simp: counter_inv_def worker_run_def split: prod.splits)
  next
    case fin
    from holds_nth_length [OF i] fin
    have pos: "1 \<le> length (concat (map holds (workers s)))" by simp
    have ret: "orch s \<noteq> OReturned None"
    proof
      assume "orch s = OReturned None"
      with inv have "wg s = 0" by (simp add: counter_inv_def)
      with counter_inv_wg [OF inv] pos show False by simp
    qed
    with inv step i fin mset_holds_update [of i "workers s" WSelect]
      mset_processed_update [of i "workers s" WSelect]
    show ?thesis
      by (auto simp: counter_inv_def worker_run_def)
  qed
qed

lemma counter_inv_main:
  "counter_inv s \<Longrightarrow> main_signal s = Some s' \<or> main_sync_error s = Some s' \<or> main_return s = Some s'
   \<Longrightarrow> counter_inv s'"
  by (auto simp: counter_inv_def main_signal_def main_sync_error_def main_return_def
      split: if_splits orch_pc.splits option.splits)

lemma counter_inv_fire:
  "counter_inv s \<Longrightarrow> fire e config a s = Some s' \<Longrightarrow> counter_inv s'"
  by (cases a)
     (auto simp: fire_def split: if_splits
       intro: counter_inv_syncRepos_step counter_inv_handoff counter_inv_select_recv
         counter_inv_select_ctx_done counter_inv_worker_run counter_inv_main)

lemma run_invariant:
  "P s \<Longrightarrow> (\<And>a s s'. P s \<Longrightarrow> fire e config a s = Some s' \<Longrightarrow> P s')
   \<Longrightarrow> run e config as s = Some s' \<Longrightarrow> P s'"
proof (induction as arbitrary: s)
  case Nil
  then show ?case by simp
next
  case (Cons a as)
  then show ?case by (auto split: option.splits)
qed

lemma counter_inv_reachable: "reachable e config w s \<Longrightarrow> counter_inv s"
  unfolding reachable_def
  by (auto intro: run_invariant [where P = counter_inv] counter_inv_init counter_inv_fire)

section \<open>Invariants of a cycle: the lister\<close>

lemma first_error_snoc:
  "first_error (xs @ [x]) = (case first_error xs of Some err \<Rightarrow> Some err | None \<Rightarrow> first_error [x])"
  by (induction xs rule: first_error.induct) simp_all

lemma lister_error_snoc:
  "lister_error e (rs @ [r]) =
     (case lister_error e rs of Some err \<Rightarrow> Some err | None \<Rightarrow> first_error [response e r])"
  by (simp add: lister_error_def first_error_snoc)

lemma lister_error_Nil [simp]: "lister_error e [] = None"
  by (simp add: lister_error_def)

lemma last_next_snoc [simp]: "last_next e (rs @ [r]) = next_of (response e r)"
  by (simp add: last_next_def)

lemma last_next_Nil [simp]: "last_next e [] = None"
  by (simp add: last_next_def)

lemma listed_snoc [simp]: "listed e (rs @ [r]) = listed e rs @ page_repos (response e r)"
  by (simp add: listed_def)

lemma listed_Nil [simp]: "listed e [] = []"
  by (simp add: listed_def)

lemma listed_single [simp]: "listed e [r] = page_repos (response e r)"
  by (simp add: listed_def)

lemma last_next_single [simp]: "last_next e [r] = next_of (response e r)"
  by (simp add: last_next_def)

lemma lister_error_single [simp]: "lister_error e [r] = first_error [response e r]"
  by (simp add: lister_error_def)

lemma follows_snoc:
  "follows e (r # rev rs) =
     (if rs = [] then request_page r = 0
      else request_page r \<noteq> 0 \<and> last_next e rs = Some (request_page r) \<and> follows e (rev rs))"
  by (cases "rev rs") (auto simp: last_next_def)

lemma lister_inv_init: "lister_inv e config w (init w)"
  by (simp add: lister_inv_def pc_inv_def Let_def init_def)

lemma syncRepos_step_simps:
  "orch s = OStart \<Longrightarrow> syncRepos_step e config s =
     (case os_MkdirAll e (world s) (ReposDir config) 493 of
        (Some err, w') \<Rightarrow>
          Some (s\<lparr>orch := OReturned (Some (Errorf ''failed to create repos directory: '' err)),
                  world := w'\<rparr>)
      | (None, w') \<Rightarrow>
          if WorkQueueSize config < 0 \<or> makechan_max e < WorkQueueSize config
          then Some (s\<lparr>orch := OCrashed, mainpc := MExited, world := w'\<rparr>)
          else if goroutine_max e < WorkerCount config
          then Some (s\<lparr>orch := OCrashed, mainpc := MExited, world := w'\<rparr>)
          else Some (s\<lparr>orch := OList 0,
                       workers := replicate (nat (WorkerCount config)) WSelect,
                       world := w'\<rparr>))"
  "orch s = OList page \<Longrightarrow> syncRepos_step e config s =
     (case Repositories_List e (GithubToken config) (ctx_done s) []
             \<lparr>Visibility = ''all'', PerPage = 100, Page = page\<rparr> of
        ListErr err \<Rightarrow>
          Some (s\<lparr>orch := OReturned (Some (Errorf ''failed to get repositories list: '' err)),
                  chanClosed := True,
                  requests := requests s @ [(GithubToken config, ctx_done s, [],
                     \<lparr>Visibility = ''all'', PerPage = 100, Page = page\<rparr>)]\<rparr>)
      | ListOk repos next \<Rightarrow>
          Some (s\<lparr>orch := OAdd repos next,
                  totalReposCnt := totalReposCnt s + int (length repos),
                  requests := requests s @ [(GithubToken config, ctx_done s, [],
                     \<lparr>Visibility = ''all'', PerPage = 100, Page = page\<rparr>)]\<rparr>))"
  "orch s = OAdd [] next \<Longrightarrow> syncRepos_step e config s =
     (if next = 0
      then Some (s\<lparr>orch := OWait, trace := trace s @ [PrintFound (totalReposCnt s)]\<rparr>)
      else Some (s\<lparr>orch := OList next\<rparr>))"
  "orch s = OAdd (repo # rest) next \<Longrightarrow> syncRepos_step e config s =
     Some (s\<lparr>orch := OSend \<lparr>Repo = repo, RepoPath = filepath_Join e (ReposDir config) (Name repo)\<rparr>
                       rest next,
             wg := wg s + 1,
             added := added s @ [\<lparr>Repo = repo,
                RepoPath = filepath_Join e (ReposDir config) (Name repo)\<rparr>]\<rparr>)"
  "orch s = OSend task rest next \<Longrightarrow> syncRepos_step e config s =
     (if int (length (tasksChan s)) < WorkQueueSize config
      then Some (s\<lparr>orch := OAdd rest next, tasksChan := tasksChan s @ [task],
                   sent := sent s @ [task]\<rparr>)
      else None)"
  "orch s = OWait \<Longrightarrow> syncRepos_step e config s =
     (if wg s = 0 then Some (s\<lparr>orch := OReturned None, chanClosed := True\<rparr>) else None)"
  "orch s = OReturned r \<Longrightarrow> syncRepos_step e config s = None"
  "orch s = OCrashed \<Longrightarrow> syncRepos_step e config s = None"
  by (simp_all add: syncRepos_step_def Let_def)

lemma lister_inv_syncRepos_step:
  assumes inv: "lister_inv e config w s" and step: "syncRepos_step e config s = Some s'"
  shows "lister_inv e config w s'"
proof (cases "orch s")
  case OStart
  with inv step show ?thesis
    by (auto simp: syncRepos_step_simps lister_inv_def pc_inv_def Let_def cycle_result_def
        split: prod.splits option.splits if_splits)
next
  case (OList page)
  with inv step show ?thesis
    by (auto simp: syncRepos_step_simps lister_inv_def pc_inv_def Let_def cycle_result_def
        follows_snoc lister_error_snoc well_formed_request_def request_page_def response_def
        split: list_response.splits if_splits)
next
  case (OAdd repos np)
  with inv step show ?thesis
    by (cases repos)
       (auto simp: syncRepos_step_simps lister_inv_def pc_inv_def Let_def task_of_def split: if_splits)
next
  case (OSend task rest np)
  with inv step show ?thesis
    by (auto simp: syncRepos_step_simps lister_inv_def pc_inv_def Let_def split: if_splits)
next
  case OWait
  with inv step show ?thesis
    by (auto simp: syncRepos_step_simps lister_inv_def pc_inv_def Let_def cycle_result_def
        split: if_splits)
next
  case (OReturned r)
  with step show ?thesis by (simp add: syncRepos_step_simps)
next
  case OCrashed
  with step show ?thesis by (simp add: syncRepos_step_simps)
qed


lemma pc_inv_cong:
  "orch s' = orch s \<Longrightarrow> requests s' = requests s \<Longrightarrow> totalReposCnt s' = totalReposCnt s
   \<Longrightarrow> set (trace s) \<subseteq> set (trace s') \<Longrightarrow> (orch s = OStart \<longrightarrow> world s' = world s \<and> workers s' = workers s)
   \<Longrightarrow> pc_inv e config w s \<Longrightarrow> pc_inv e config w s'"
  unfolding pc_inv_def Let_def
  by (cases "orch s") (auto split: if_splits)

lemma lister_inv_cong:
  "orch s' = orch s \<Longrightarrow> requests s' = requests s \<Longrightarrow> totalReposCnt s' = totalReposCnt s
   \<Longrightarrow> sent s' = sent s
   \<Longrightarrow> set (trace s) \<subseteq> set (trace s') \<Longrightarrow> (orch s = OStart \<longrightarrow> world s' = world s \<and> workers s' = workers s)
   \<Longrightarrow> lister_inv e config w s \<Longrightarrow> lister_inv e config w s'"
  unfolding lister_inv_def
  by (auto intro: pc_inv_cong)

lemma lister_inv_handoff:
  "lister_inv e config w s \<Longrightarrow> handoff i s = Some s' \<Longrightarrow> lister_inv e config w s'"
  by (cases "orch s")
     (auto simp: handoff_def lister_inv_def pc_inv_def Let_def split: if_splits)

lemma lister_inv_worker:
  assumes inv: "lister_inv e config w s" and i: "i < length (workers s)"
    and same: "orch s' = orch s" "requests s' = requests s" "totalReposCnt s' = totalReposCnt s"
      "sent s' = sent s" "set (trace s) \<subseteq> set (trace s')"
  shows "lister_inv e config w s'"
proof -
  from inv i have "orch s \<noteq> OStart"
    by (auto simp: lister_inv_def pc_inv_def Let_def)
  with inv same show ?thesis
    by (auto intro: lister_inv_cong)
qed

lemma lister_inv_select_recv:
  "lister_inv e config w s \<Longrightarrow> select_recv i s = Some s' \<Longrightarrow> lister_inv e config w s'"
  by (erule lister_inv_worker [where i = i])
     (auto simp: select_recv_def split: if_splits list.splits)

lemma lister_inv_select_ctx_done:
  "lister_inv e config w s \<Longrightarrow> select_ctx_done i s = Some s' \<Longrightarrow> lister_inv e config w s'"
  by (erule lister_inv_worker [where i = i])
     (auto simp: select_ctx_done_def split: if_splits)

lemma lister_inv_worker_run:
  "lister_inv e config w s \<Longrightarrow> worker_run e config i s = Some s' \<Longrightarrow> lister_inv e config w s'"
  by (erule lister_inv_worker [where i = i])
     (auto simp: worker_run_def split: if_splits worker_pc.splits prod.splits)

lemma lister_inv_main:
  "lister_inv e config w s \<Longrightarrow>
   main_signal s = Some s' \<or> main_sync_error s = Some s' \<or> main_return s = Some s'
   \<Longrightarrow> lister_inv e config w s'"
  by (erule lister_inv_cong [rotated -1])
     (auto simp: main_signal_def main_sync_error_def main_return_def
       split: if_splits orch_pc.splits option.splits)

lemma lister_inv_fire:
  "lister_inv e config w s \<Longrightarrow> fire e config a s = Some s' \<Longrightarrow> lister_inv e config w s'"
  by (cases a)
     (auto simp: fire_def split: if_splits
       intro: lister_inv_syncRepos_step lister_inv_handoff lister_inv_select_recv
         lister_inv_select_ctx_done lister_inv_worker_run lister_inv_main)

lemma lister_inv_reachable: "reachable e config w s \<Longrightarrow> lister_inv e config w s"
  unfolding reachable_def
  by (auto intro: run_invariant [where P = "lister_inv e config w"] lister_inv_init lister_inv_fire)

section \<open>The wait group, and what the workers log\<close>

lemmas demo_defs =
  demo_env_def demo_config_def disk_ops_def repo_a_def repo_gone_def task_of_def init_def
  fire_def syncRepos_step_def handoff_def select_recv_def select_ctx_done_def worker_run_def
  main_signal_def main_sync_error_def main_return_def ctx_done_def processRepo_def Errorf_def
  Let_def

lemma demo_run: "run demo_env demo_config demo_schedule (init []) = Some demo_final"
  by (simp add: demo_schedule_def demo_final_def demo_defs)

lemma demo_reachable: "reachable demo_env demo_config [] demo_final"
  unfolding reachable_def using demo_run by blast


lemma worker_errors_append [simp]:
  "worker_errors (xs @ ys) = worker_errors xs @ worker_errors ys"
  by (induction xs rule: worker_errors.induct) simp_all

lemma task_errors_append [simp]:
  "task_errors (xs @ ys) = task_errors xs @ task_errors ys"
  by (induction xs rule: task_errors.induct) simp_all

lemma worker_errors_processRepo:
  "processRepo ops config wid task w = (err, evs, w') \<Longrightarrow> worker_errors evs = []"
proof (cases "os_Stat ops w (RepoPath task) = ErrNotExist")
  case True
  assume "processRepo ops config wid task w = (err, evs, w')"
  with True show ?thesis
    by (auto simp: processRepo_not_exist split: prod.splits)
next
  case False
  assume "processRepo ops config wid task w = (err, evs, w')"
  with False have "pull_branch ops config wid task w = (err, evs, w')"
    by (simp add: processRepo_else)
  then show ?thesis
    by (auto simp: pull_branch_def split: sum.splits prod.splits if_splits)
qed

lemma log_inv_fire: "log_inv s \<Longrightarrow> fire e config a s = Some s' \<Longrightarrow> log_inv s'"
proof (cases a)
  case Orch
  assume "log_inv s" "fire e config a s = Some s'"
  with Orch show ?thesis
    by (cases "orch s")
       (auto simp: fire_def log_inv_def syncRepos_step_def Let_def
         split: if_splits prod.splits option.splits list_response.splits list.splits)
next
  case (Work i)
  assume "log_inv s" "fire e config a s = Some s'"
  with Work show ?thesis
    by (auto simp: fire_def log_inv_def worker_run_def worker_errors_processRepo
        split: if_splits worker_pc.splits prod.splits option.splits)
qed (auto simp: fire_def log_inv_def handoff_def select_recv_def select_ctx_done_def
      main_signal_def main_sync_error_def main_return_def
      split: if_splits orch_pc.splits list.splits option.splits)

lemma log_inv_reachable: "reachable e config w s \<Longrightarrow> log_inv s"
proof -
  assume "reachable e config w s"
  then obtain as where r: "run e config as (init w) = Some s"
    by (auto simp: reachable_def)
  have "log_inv (init w)" by (simp add: log_inv_def init_def)
  then show ?thesis using log_inv_fire r by (rule run_invariant)
qed

lemma holds_empty_processed:
  "concat (map holds ws) = [] \<Longrightarrow> concat (map processed ws) = []"
proof (induction ws)
  case Nil
  then show ?case by simp
next
  case (Cons a ws)
  then show ?case by (cases a) simp_all
qed

text \<open>
  The accounting of the counter that holds in every state of a cycle. The counter of the
  wait group is not negative: it
  is the number of tasks counted with \<^verbatim>\<open>wg.Add(1)\<close> minus the number counted down with
  \<^verbatim>\<open>wg.Done()\<close>. A task is counted before it is sent: the tasks counted are the tasks sent,
  plus the one \<^verbatim>\<open>syncRepos\<close> is about to send. Every task sent is in the buffer, held by one
  worker or finished, with multiplicity, so no task is counted down twice; and the tasks
  \<^verbatim>\<open>processRepo\<close> returned from, with or without error, are the finished ones and those
  about to be counted down. When the cycle has returned \<^verbatim>\<open>nil\<close> the counter is zero, the
  buffer is empty, no worker holds a task, and every task sent is finished.
\<close>

theorem wait_group_accounting:
  "reachable e config w s \<Longrightarrow>
   0 \<le> wg s
   \<and> wg s = int (length (added s)) - int (length (finished s))
   \<and> added s = sent s @ at_send (orch s)
   \<and> mset (sent s) =
       mset (tasksChan s) + mset (concat (map holds (workers s))) + mset (finished s)
   \<and> mset (map fst (outcomes s)) =
       mset (concat (map processed (workers s))) + mset (finished s)
   \<and> (orch s = OReturned None \<longrightarrow>
        wg s = 0 \<and> tasksChan s = [] \<and> concat (map holds (workers s)) = []
        \<and> mset (finished s) = mset (sent s) \<and> mset (map fst (outcomes s)) = mset (sent s))"
proof -
  assume "reachable e config w s"
  then have inv: "counter_inv s" by (rule counter_inv_reachable)
  note sum = counter_inv_wg [OF inv]
  from inv have parts:
    "int (length (added s)) = wg s + int (length (finished s))"
    "added s = sent s @ at_send (orch s)"
    "mset (sent s) =
       mset (tasksChan s) + mset (concat (map holds (workers s))) + mset (finished s)"
    "mset (map fst (outcomes s)) =
       mset (concat (map processed (workers s))) + mset (finished s)"
    "orch s = OReturned None \<longrightarrow> wg s = 0"
    unfolding counter_inv_def by blast+
  have zero: "tasksChan s = [] \<and> concat (map holds (workers s)) = []
      \<and> mset (finished s) = mset (sent s) \<and> mset (map fst (outcomes s)) = mset (sent s)"
    if "orch s = OReturned None"
  proof -
    from that parts(5) have "wg s = 0" by simp
    with sum have "length (tasksChan s) = 0" "length (concat (map holds (workers s))) = 0"
      by linarith+
    then have e: "tasksChan s = []" "concat (map holds (workers s)) = []"
      by simp_all
    from e(2) have "concat (map processed (workers s)) = []" by (rule holds_empty_processed)
    with e parts(3,4) show ?thesis by simp
  qed
  from sum have "0 \<le> wg s" by simp
  with parts zero show ?thesis by simp
qed

text \<open>The accounting at the end of the small cycle: two tasks counted, two counted down.\<close>

theorem wait_group_accounting_witness:
  "reachable demo_env demo_config [] demo_final
   \<and> orch demo_final = OReturned None \<and> wg demo_final = 0
   \<and> length (added demo_final) = 2 \<and> length (finished demo_final) = 2
   \<and> mset (finished demo_final) = mset (sent demo_final)"
  using wait_group_accounting [OF demo_reachable] demo_reachable
  by (simp add: demo_final_def)

section \<open>Early return and shutdown\<close>

lemma fire_after_exit: "mainpc s = MExited \<Longrightarrow> fire e config a s = None"
  by (simp add: fire_def)

text \<open>
  Claim C3 at a failing input: the first page lists one repository, the second request
  fails. \<^verbatim>\<open>syncRepos\<close> returns the error at once, without \<^verbatim>\<open>wg.Wait()\<close>: the task is still
  in the buffer and the counter is 1. \<^verbatim>\<open>main\<close> then receives the error, cancels and
  returns, and the process ends with the task never processed.
\<close>

theorem lister_failure_abandons_task:
  "run flaky_env demo_config [Orch, Orch, Orch, Orch, Orch, Orch] (init []) =
     Some \<lparr>orch = OReturned (Some ''failed to get repositories list: 503 Service Unavailable''),
           totalReposCnt = 1, workers = [WSelect],
           tasksChan = [task_of flaky_env demo_config repo_a],
           chanClosed = True, wg = 1, mainpc = MSelect, world = [], trace = [],
           requests =
             [(''tok'', False, [], \<lparr>Visibility = ''all'', PerPage = 100, Page = 0\<rparr>),
              (''tok'', False, [], \<lparr>Visibility = ''all'', PerPage = 100, Page = 2\<rparr>)],
           added = [task_of flaky_env demo_config repo_a],
           sent = [task_of flaky_env demo_config repo_a], outcomes = [], finished = []\<rparr>
   \<and> run flaky_env demo_config
       [Orch, Orch, Orch, Orch, Orch, Orch, SyncError, MainReturn] (init []) =
     Some \<lparr>orch = OReturned (Some ''failed to get repositories list: 503 Service Unavailable''),
           totalReposCnt = 1, workers = [WSelect],
           tasksChan = [task_of flaky_env demo_config repo_a],
           chanClosed = True, wg = 1, mainpc = MExited, world = [],
           trace = [LogSyncError ''failed to get repositories list: 503 Service Unavailable'',
                    LogServiceStopped],
           requests =
             [(''tok'', False, [], \<lparr>Visibility = ''all'', PerPage = 100, Page = 0\<rparr>),
              (''tok'', False, [], \<lparr>Visibility = ''all'', PerPage = 100, Page = 2\<rparr>)],
           added = [task_of flaky_env demo_config repo_a],
           sent = [task_of flaky_env demo_config repo_a], outcomes = [], finished = []\<rparr>"
  by (simp add: flaky_env_def demo_defs)

text \<open>
  Claim C5 at a failing input, the one of C3: the first page lists one repository, the
  second request fails. The task was counted before it was sent, and no worker has
  counted it down; \<^verbatim>\<open>syncRepos\<close> returns the error without \<^verbatim>\<open>wg.Wait()\<close>, so the cycle ends
  with the counter at 1, not at zero, and the counter is still 1 when the process ends.
\<close>

theorem counter_positive_when_cycle_ends:
  "map_option (\<lambda>s. (orch s, wg s, tasksChan s, added s, finished s))
     (run flaky_env demo_config [Orch, Orch, Orch, Orch, Orch, Orch] (init [])) =
     Some (OReturned (Some ''failed to get repositories list: 503 Service Unavailable''),
           1, [task_of flaky_env demo_config repo_a], [task_of flaky_env demo_config repo_a], [])
   \<and> map_option (\<lambda>s. (mainpc s, wg s, finished s))
       (run flaky_env demo_config
          [Orch, Orch, Orch, Orch, Orch, Orch, SyncError, MainReturn] (init [])) =
     Some (MExited, 1, [])"
  by (simp add: flaky_env_def demo_defs)

text \<open>
  Claim C4 at a failing input: a signal arrives while worker 0 holds the task of
  repository \<^verbatim>\<open>a\<close> and a second task is still to be sent. \<^verbatim>\<open>main\<close> cancels and returns; the
  process ends with the task held and never processed, and the queue not drained.
\<close>

theorem signal_ends_process_with_task_in_flight:
  "run demo_env demo_config [Orch, Orch, Orch, Orch, Recv 0, Signal, MainReturn] (init []) =
     Some \<lparr>orch = OAdd [repo_gone] 0, totalReposCnt = 2,
           workers = [WGot (task_of demo_env demo_config repo_a)],
           tasksChan = [], chanClosed = False, wg = 1, mainpc = MExited, world = [],
           trace = [LogShutdownSignal, LogServiceStopped],
           requests = [(''tok'', False, [], \<lparr>Visibility = ''all'', PerPage = 100, Page = 0\<rparr>)],
           added = [task_of demo_env demo_config repo_a],
           sent = [task_of demo_env demo_config repo_a], outcomes = [], finished = []\<rparr>"
  by (simp add: demo_defs)

section \<open>The account listed\<close>

lemma processRepo_GithubUser [simp]:
  "processRepo ops (config\<lparr>GithubUser := u\<rparr>) wid task w = processRepo ops config wid task w"
  by (simp add: processRepo_def)

lemma syncRepos_step_GithubUser [simp]:
  "syncRepos_step e (config\<lparr>GithubUser := u\<rparr>) s = syncRepos_step e config s"
proof (cases "orch s")
  case (OAdd repos np)
  then show ?thesis by (cases repos) (simp_all add: syncRepos_step_simps)
qed (simp_all add: syncRepos_step_simps split: prod.splits option.splits list_response.splits)

lemma worker_run_GithubUser [simp]:
  "worker_run e (config\<lparr>GithubUser := u\<rparr>) i s = worker_run e config i s"
  by (simp add: worker_run_def split: worker_pc.splits)

lemma fire_GithubUser [simp]:
  "fire e (config\<lparr>GithubUser := u\<rparr>) a s = fire e config a s"
  by (cases a) (simp_all add: fire_def)

lemma run_GithubUser [simp]:
  "run e (config\<lparr>GithubUser := u\<rparr>) as s = run e config as s"
  by (induction as arbitrary: s) (simp_all split: option.splits)

text \<open>
  Claim C8 as stated fails: with the account \<^verbatim>\<open>alice\<close> configured, and with the account
  \<^verbatim>\<open>bob\<close>, the cycle lists the same repository, that of the owner of the token, although
  the service would answer differently for \<^verbatim>\<open>alice\<close>.
\<close>

theorem account_field_ignored_counterexample:
  "run accounts_env (demo_config\<lparr>GithubUser := ''alice''\<rparr>) [Orch, Orch] (init []) =
     Some listed_state
   \<and> run accounts_env (demo_config\<lparr>GithubUser := ''bob''\<rparr>) [Orch, Orch] (init []) =
     Some listed_state
   \<and> orch listed_state = OAdd [repo_a] 0
   \<and> Repositories_List accounts_env ''tok'' False ''alice''
       \<lparr>Visibility = ''all'', PerPage = 100, Page = 0\<rparr> = ListOk [repo_alice] 0"
  by (simp add: accounts_env_def listed_state_def demo_defs)

text \<open>
  Claim C8, amended. Every listing call of a cycle is made with the token of the
  configuration, the empty account name (the owner of the token), visibility \<^verbatim>\<open>all\<close> and
  100 per page; the account field of the configuration is not read, so a configuration
  that differs in that field only reaches the same states.
\<close>

theorem lister_asks_for_token_owner:
  "reachable e config w s \<Longrightarrow>
   list_all (well_formed_request config) (requests s)
   \<and> reachable e (config\<lparr>GithubUser := u\<rparr>) w s"
proof -
  assume r: "reachable e config w s"
  then have "lister_inv e config w s" by (rule lister_inv_reachable)
  then have "list_all (well_formed_request config) (requests s)"
    by (simp add: lister_inv_def)
  with r show ?thesis by (simp add: reachable_def)
qed

text \<open>The amended C8 on the three accounts.\<close>

theorem lister_asks_for_token_owner_witness:
  "reachable accounts_env (demo_config\<lparr>GithubUser := ''alice''\<rparr>) [] listed_state
   \<and> requests listed_state =
       [(''tok'', False, [], \<lparr>Visibility = ''all'', PerPage = 100, Page = 0\<rparr>)]
   \<and> reachable accounts_env (demo_config\<lparr>GithubUser := ''bob''\<rparr>) [] listed_state"
proof -
  have "run accounts_env (demo_config\<lparr>GithubUser := ''alice''\<rparr>) [Orch, Orch] (init []) =
      Some listed_state"
    by (simp add: accounts_env_def listed_state_def demo_defs)
  then have r: "reachable accounts_env (demo_config\<lparr>GithubUser := ''alice''\<rparr>) [] listed_state"
    unfolding reachable_def by blast
  from lister_asks_for_token_owner [OF r, of "''bob''"] r show ?thesis
    by (simp add: listed_state_def)
qed

section \<open>Progress and termination of a cycle\<close>


lemma run_append:
  "run e config (as @ bs) s =
     (case run e config as s of None \<Rightarrow> None | Some s' \<Rightarrow> run e config bs s')"
  by (induction as arbitrary: s) (simp_all split: option.splits)

lemma reachable_fire:
  "reachable e config w s \<Longrightarrow> fire e config a s = Some s' \<Longrightarrow> reachable e config w s'"
proof -
  assume "reachable e config w s" and f: "fire e config a s = Some s'"
  then obtain as where "run e config as (init w) = Some s"
    by (auto simp: reachable_def)
  with f have "run e config (as @ [a]) (init w) = Some s'"
    by (simp add: run_append)
  then show ?thesis unfolding reachable_def by blast
qed

lemma reachable_invariant:
  assumes "reachable e config w s" and "P (init w)"
    and "\<And>a s s'. P s \<Longrightarrow> fire e config a s = Some s' \<Longrightarrow> P s'"
  shows "P s"
proof -
  from assms(1) obtain as where "run e config as (init w) = Some s"
    by (auto simp: reachable_def)
  with assms(2,3) show ?thesis by (rule run_invariant)
qed

lemma pool_inv_syncRepos_step:
  assumes inv: "pool_inv config s" and step: "syncRepos_step e config s = Some s'"
  shows "pool_inv config s'"
proof (cases "orch s")
  case (OAdd repos np)
  with inv step show ?thesis
    by (cases repos) (auto simp: syncRepos_step_simps pool_inv_def ctx_done_def split: if_splits)
qed (use inv step in \<open>auto simp: syncRepos_step_simps pool_inv_def ctx_done_def
      split: if_splits prod.splits option.splits list_response.splits\<close>)

lemma not_in_update: "x \<notin> set xs \<Longrightarrow> x \<noteq> y \<Longrightarrow> x \<notin> set (xs[i := y])"
  using set_update_subset_insert [of xs i y] by auto

lemma pool_inv_fire:
  assumes inv: "pool_inv config s" and step: "fire e config a s = Some s'"
  shows "pool_inv config s'"
proof (cases a)
  case Orch
  with inv step show ?thesis
    by (auto simp: fire_def split: if_splits intro: pool_inv_syncRepos_step)
next
  case (Handoff i)
  with inv step show ?thesis
    by (cases "orch s")
       (auto simp: fire_def handoff_def pool_inv_def ctx_done_def not_in_update split: if_splits)
next
  case (Recv i)
  with inv step show ?thesis
    by (auto simp: fire_def select_recv_def pool_inv_def ctx_done_def not_in_update
        split: if_splits list.splits)
next
  case (CtxDone i)
  with inv step show ?thesis
    by (auto simp: fire_def select_ctx_done_def pool_inv_def ctx_done_def split: if_splits)
next
  case (Work i)
  with inv step show ?thesis
    by (auto simp: fire_def worker_run_def pool_inv_def ctx_done_def not_in_update
        split: if_splits worker_pc.splits prod.splits)
next
  case Signal
  with inv step show ?thesis
    by (auto simp: fire_def main_signal_def pool_inv_def ctx_done_def split: if_splits)
next
  case SyncError
  with inv step show ?thesis
    by (auto simp: fire_def main_sync_error_def pool_inv_def ctx_done_def
        split: if_splits orch_pc.splits option.splits)
next
  case MainReturn
  with inv step show ?thesis
    by (auto simp: fire_def main_return_def pool_inv_def ctx_done_def split: if_splits)
qed

lemma pool_inv_reachable: "reachable e config w s \<Longrightarrow> pool_inv config s"
proof -
  assume r: "reachable e config w s"
  have "pool_inv config (init w)"
    by (simp add: pool_inv_def init_def ctx_done_def)
  with r show ?thesis
    by (rule reachable_invariant) (rule pool_inv_fire)
qed

lemma weight_update:
  "i < length ws \<Longrightarrow>
   sum_list (map worker_weight (ws[i := w])) + worker_weight (ws ! i) =
   sum_list (map worker_weight ws) + worker_weight w"
proof (induction ws arbitrary: i)
  case Nil
  then show ?case by simp
next
  case (Cons a ws)
  then show ?case by (cases i) (simp_all add: ac_simps)
qed

lemma weight_down:
  "i < length ws \<Longrightarrow> worker_weight w < worker_weight (ws ! i) \<Longrightarrow>
   sum_list (map worker_weight (ws[i := w])) < sum_list (map worker_weight ws)"
  using weight_update [of i ws w] by linarith

lemma weight_recv:
  "i < length ws \<Longrightarrow> ws ! i = WSelect \<Longrightarrow>
   sum_list (map worker_weight (ws[i := WGot task])) = sum_list (map worker_weight ws) + 2"
  using weight_update [of i ws "WGot task"] by simp

lemma cycle_order_syncRepos_step:
  assumes pg: "paginates e config rank" and step: "syncRepos_step e config s = Some s'"
  shows "(s', s) \<in> cycle_order rank"
proof (cases "orch s")
  case OStart
  with step show ?thesis
    by (auto simp: syncRepos_step_simps cycle_order_def m_start_def
        split: prod.splits option.splits if_splits)
next
  case (OList page)
  show ?thesis
  proof (cases "Repositories_List e (GithubToken config) (ctx_done s) []
      \<lparr>Visibility = ''all'', PerPage = 100, Page = page\<rparr>")
    case (ListErr err)
    with OList step show ?thesis
      by (auto simp: syncRepos_step_simps cycle_order_def m_start_def m_pages_def)
  next
    case (ListOk repos np)
    with pg have "np \<noteq> 0 \<longrightarrow> rank np < rank page"
      unfolding paginates_def by blast
    then have "(if np = 0 then 0 else Suc (rank np)) < Suc (rank page)"
      by simp
    with OList ListOk step show ?thesis
      by (auto simp: syncRepos_step_simps cycle_order_def m_start_def m_pages_def)
  qed
next
  case (OAdd repos np)
  with step show ?thesis
    by (cases repos)
       (auto simp: syncRepos_step_simps cycle_order_def m_start_def m_pages_def m_local_def
         split: if_splits)
next
  case (OSend task rest np)
  with step show ?thesis
    by (auto simp: syncRepos_step_simps cycle_order_def m_start_def m_pages_def m_local_def
        split: if_splits)
next
  case OWait
  with step show ?thesis
    by (auto simp: syncRepos_step_simps cycle_order_def m_start_def m_pages_def m_local_def
        split: if_splits)
next
  case (OReturned r)
  with step show ?thesis by (simp add: syncRepos_step_simps)
next
  case OCrashed
  with step show ?thesis by (simp add: syncRepos_step_simps)
qed

lemma cycle_order_fire:
  assumes pg: "paginates e config rank" and step: "fire e config a s = Some s'"
  shows "(s', s) \<in> cycle_order rank"
proof (cases a)
  case Orch
  with pg step show ?thesis
    by (auto simp: fire_def split: if_splits intro: cycle_order_syncRepos_step)
next
  case (Handoff i)
  with step show ?thesis
    by (cases "orch s")
       (auto simp: fire_def handoff_def cycle_order_def m_start_def m_pages_def m_local_def
         split: if_splits)
next
  case (Recv i)
  with step show ?thesis
    by (auto simp: fire_def select_recv_def cycle_order_def m_start_def m_pages_def m_local_def
        m_pool_def weight_down weight_recv split: if_splits list.splits)
next
  case (CtxDone i)
  with step show ?thesis
    by (auto simp: fire_def select_ctx_done_def cycle_order_def m_start_def m_pages_def
        m_local_def m_pool_def weight_down split: if_splits)
next
  case (Work i)
  with step show ?thesis
    by (auto simp: fire_def worker_run_def cycle_order_def m_start_def m_pages_def
        m_local_def m_pool_def weight_down split: if_splits worker_pc.splits prod.splits)
next
  case Signal
  with step show ?thesis
    by (auto simp: fire_def main_signal_def cycle_order_def m_start_def m_pages_def
        m_local_def m_pool_def m_main_def split: if_splits)
next
  case SyncError
  with step show ?thesis
    by (auto simp: fire_def main_sync_error_def cycle_order_def m_start_def m_pages_def
        m_local_def m_pool_def m_main_def split: if_splits orch_pc.splits option.splits)
next
  case MainReturn
  with step show ?thesis
    by (auto simp: fire_def main_return_def cycle_order_def m_start_def m_pages_def
        m_local_def m_pool_def m_main_def split: if_splits)
qed

lemma wf_cycle_order: "wf (cycle_order rank)"
  by (simp add: cycle_order_def)

lemma steps_terminate:
  "paginates e config rank \<Longrightarrow> wf {(s', s). \<exists>a. fire e config a s = Some s'}"
  by (rule wf_subset [OF wf_cycle_order [of rank]]) (auto intro: cycle_order_fire)


lemma holds_nonempty:
  "concat (map holds ws) \<noteq> [] \<Longrightarrow> \<exists>j < length ws. holds (ws ! j) \<noteq> []"
proof (induction ws)
  case Nil
  then show ?case by simp
next
  case (Cons a ws)
  show ?case
  proof (cases "holds a = []")
    case True
    with Cons obtain j where "j < length ws" "holds (ws ! j) \<noteq> []" by auto
    then have "Suc j < length (a # ws)" "holds ((a # ws) ! Suc j) \<noteq> []" by simp_all
    then show ?thesis by blast
  next
    case False
    then have "0 < length (a # ws)" "holds ((a # ws) ! 0) \<noteq> []" by simp_all
    then show ?thesis by blast
  qed
qed

lemma holder_can_work:
  "mainpc s \<noteq> MExited \<Longrightarrow> j < length (workers s) \<Longrightarrow> holds (workers s ! j) \<noteq> []
   \<Longrightarrow> fire e config (Work j) s \<noteq> None"
  by (cases "workers s ! j") (auto simp: fire_def worker_run_def split: prod.splits)

lemma cycle_progress:
  assumes r: "reachable e config w s" and m: "mainpc s = MSelect"
    and n: "1 \<le> WorkerCount config" and pc: "orch s = OStart \<or> running (orch s)"
  shows "\<exists>a. a \<noteq> Signal \<and> fire e config a s \<noteq> None"
proof -
  note cinv = counter_inv_reachable [OF r]
  note pinv = pool_inv_reachable [OF r]
  have orch_step: "syncRepos_step e config s \<noteq> None \<Longrightarrow> ?thesis"
  proof -
    assume "syncRepos_step e config s \<noteq> None"
    with m have "fire e config Orch s \<noteq> None" by (simp add: fire_def)
    then show ?thesis by blast
  qed
  have first: "0 < length (workers s) \<and> workers s ! 0 \<noteq> WExited \<and> \<not> chanClosed s"
    if "running (orch s)"
  proof -
    from that pinv n have len: "0 < length (workers s)" and opn: "\<not> chanClosed s"
      by (auto simp: pool_inv_def)
    with pinv m have "WExited \<notin> set (workers s)"
      by (simp add: pool_inv_def ctx_done_def)
    with len have "workers s ! 0 \<noteq> WExited"
      by (metis nth_mem)
    with len opn show ?thesis by simp
  qed
  have pool: ?thesis
    if run: "running (orch s)"
      and empty: "tasksChan s = [] \<Longrightarrow> workers s ! 0 = WSelect \<Longrightarrow>
        (\<exists>i. fire e config (Handoff i) s \<noteq> None) \<or> concat (map holds (workers s)) \<noteq> []"
  proof (cases "workers s ! 0")
    case WSelect
    show ?thesis
    proof (cases "tasksChan s")
      case Nil
      with empty WSelect consider
          (hand) i where "fire e config (Handoff i) s \<noteq> None"
        | (held) "concat (map holds (workers s)) \<noteq> []"
        by blast
      then show ?thesis
      proof cases
        case hand
        then show ?thesis by blast
      next
        case held
        then obtain j where "j < length (workers s)" "holds (workers s ! j) \<noteq> []"
          using holds_nonempty by blast
        with m have "fire e config (Work j) s \<noteq> None"
          by (simp add: holder_can_work)
        then show ?thesis by blast
      qed
    next
      case (Cons task rest)
      with WSelect first [OF run] m have "fire e config (Recv 0) s \<noteq> None"
        by (simp add: fire_def select_recv_def)
      then show ?thesis by blast
    qed
  next
    case (WGot task)
    with first [OF run] m have "fire e config (Work 0) s \<noteq> None"
      by (simp add: holder_can_work)
    then show ?thesis by blast
  next
    case (WDone task)
    with first [OF run] m have "fire e config (Work 0) s \<noteq> None"
      by (simp add: holder_can_work)
    then show ?thesis by blast
  next
    case WExited
    with first [OF run] show ?thesis by simp
  qed
  show ?thesis
  proof (cases "orch s")
    case OStart
    then show ?thesis
      by (intro orch_step) (simp add: syncRepos_step_simps split: prod.splits option.splits)
  next
    case (OList page)
    then show ?thesis
      by (intro orch_step) (simp add: syncRepos_step_simps split: list_response.splits)
  next
    case (OAdd repos np)
    then show ?thesis
      by (intro orch_step) (cases repos; simp add: syncRepos_step_simps)
  next
    case (OSend task rest np)
    show ?thesis
    proof (cases "int (length (tasksChan s)) < WorkQueueSize config")
      case True
      with OSend show ?thesis
        by (intro orch_step) (simp add: syncRepos_step_simps)
    next
      case False
      have run: "running (orch s)" using OSend by simp
      show ?thesis
      proof (rule pool [OF run])
        assume "tasksChan s = []" "workers s ! 0 = WSelect"
        with OSend first [OF run] m have "fire e config (Handoff 0) s \<noteq> None"
          by (simp add: fire_def handoff_def)
        then show "(\<exists>i. fire e config (Handoff i) s \<noteq> None)
            \<or> concat (map holds (workers s)) \<noteq> []"
          by blast
      qed
    qed
  next
    case OWait
    show ?thesis
    proof (cases "wg s = 0")
      case True
      with OWait show ?thesis
        by (intro orch_step) (simp add: syncRepos_step_simps)
    next
      case False
      have run: "running (orch s)" using OWait by simp
      show ?thesis
      proof (rule pool [OF run])
        assume "tasksChan s = []"
        with counter_inv_wg [OF cinv] OWait False
        have "length (concat (map holds (workers s))) \<noteq> 0" by simp
        then have "concat (map holds (workers s)) \<noteq> []" by simp
        then show "(\<exists>i. fire e config (Handoff i) s \<noteq> None)
            \<or> concat (map holds (workers s)) \<noteq> []"
          by blast
      qed
    qed
  next
    case (OReturned err)
    with pc show ?thesis by simp
  next
    case OCrashed
    with pc show ?thesis by simp
  qed
qed


text \<open>
  A capacity beyond what \<^verbatim>\<open>make\<close> accepts: the first step past \<^verbatim>\<open>os.MkdirAll\<close> ends the
  process.
\<close>

lemma oversized_queue_panics:
  "run demo_env (demo_config\<lparr>WorkQueueSize := 9223372036854775807\<rparr>) [Orch] (init []) =
     Some ((init [])\<lparr>orch := OCrashed, mainpc := MExited\<rparr>)
   \<and> run demo_env (demo_config\<lparr>WorkQueueSize := 70368744177664\<rparr>) [Orch] (init []) =
     Some ((init [])\<lparr>orch := OCrashed, mainpc := MExited\<rparr>)
   \<and> \<not> pool_fits demo_env (demo_config\<lparr>WorkQueueSize := 70368744177664\<rparr>)"
  by (simp add: demo_defs pool_fits_def)

lemma mainpc_kept:
  assumes step: "fire e config a s = Some s'" and a: "a \<noteq> Signal"
    and m: "mainpc s = MSelect" and q: "pool_fits e config"
    and pc: "orch s = OStart \<or> running (orch s)"
  shows "mainpc s' = MSelect"
proof (cases a)
  case Orch
  with step m q show ?thesis
    by (cases "orch s")
       (auto simp: fire_def syncRepos_step_def pool_fits_def Let_def
         split: if_splits prod.splits option.splits list_response.splits list.splits)
next
  case (Handoff i)
  with step m show ?thesis
    by (cases "orch s") (auto simp: fire_def handoff_def split: if_splits)
next
  case (Recv i)
  with step m show ?thesis
    by (auto simp: fire_def select_recv_def split: if_splits list.splits)
next
  case (CtxDone i)
  with step m show ?thesis
    by (auto simp: fire_def select_ctx_done_def split: if_splits)
next
  case (Work i)
  with step m show ?thesis
    by (auto simp: fire_def worker_run_def split: if_splits worker_pc.splits prod.splits)
next
  case Signal
  with a show ?thesis by simp
next
  case SyncError
  with step m pc show ?thesis
    by (cases "orch s") (auto simp: fire_def main_sync_error_def)
next
  case MainReturn
  with step m show ?thesis
    by (auto simp: fire_def main_return_def)
qed

lemma cycle_can_return:
  assumes pg: "paginates e config rank" and n: "1 \<le> WorkerCount config"
    and q: "pool_fits e config"
  shows "reachable e config w s \<Longrightarrow> mainpc s = MSelect \<Longrightarrow>
    \<exists>as s' err. Signal \<notin> set as \<and> run e config as s = Some s' \<and> orch s' = OReturned err"
proof (induction s rule: wf_induct_rule [OF wf_cycle_order [of rank]])
  case (1 s)
  note r = \<open>reachable e config w s\<close> and m = \<open>mainpc s = MSelect\<close>
  consider (returned) err where "orch s = OReturned err"
    | (panic) "orch s = OCrashed"
    | (going) "orch s = OStart \<or> running (orch s)"
    by (cases "orch s") simp_all
  then show ?case
  proof cases
    case returned
    then have "Signal \<notin> set [] \<and> run e config [] s = Some s \<and> orch s = OReturned err"
      by simp
    then show ?thesis by blast
  next
    case panic
    with pool_inv_reachable [OF r] m show ?thesis
      by (simp add: pool_inv_def)
  next
    case going
    from cycle_progress [OF r m n going] obtain a s1
      where a: "a \<noteq> Signal" and f: "fire e config a s = Some s1"
      by auto
    from f have "(s1, s) \<in> cycle_order rank" by (rule cycle_order_fire [OF pg])
    moreover from r f have "reachable e config w s1" by (rule reachable_fire)
    moreover from f a m q going have "mainpc s1 = MSelect" by (rule mainpc_kept)
    ultimately obtain as s' err
      where "Signal \<notin> set as" "run e config as s1 = Some s'" "orch s' = OReturned err"
      using "1.IH" by blast
    with a f have "Signal \<notin> set (a # as) \<and> run e config (a # as) s = Some s'
        \<and> orch s' = OReturned err"
      by simp
    then show ?thesis by blast
  qed
qed

lemma reachable_run:
  "reachable e config w s \<Longrightarrow> run e config as s = Some s' \<Longrightarrow> reachable e config w s'"
proof -
  assume "reachable e config w s" and f: "run e config as s = Some s'"
  then obtain bs where "run e config bs (init w) = Some s"
    by (auto simp: reachable_def)
  with f have "run e config (bs @ as) (init w) = Some s'"
    by (simp add: run_append)
  then show ?thesis unfolding reachable_def by blast
qed

lemma returned_result:
  "reachable e config w s \<Longrightarrow> orch s = OReturned err \<Longrightarrow>
   err = cycle_result e config w (requests s)"
  by (drule lister_inv_reachable) (simp add: lister_inv_def pc_inv_def Let_def)

text \<open>
  Claim C1. In every state of a cycle: if \<^verbatim>\<open>syncRepos\<close> has returned, what it returned is
  the error of creating the root directory if there was one, else the error of the first
  listing call that failed if one did, else \<^verbatim>\<open>nil\<close>; the results of \<^verbatim>\<open>processRepo\<close> do not
  enter. The errors the workers logged are exactly the errors \<^verbatim>\<open>processRepo\<close> returned, in
  order. And the cycle does return: with at least one worker, a channel and a pool of
  workers that fit in the machine (a capacity that is not negative and that \<^verbatim>\<open>make\<close>
  accepts, a worker count within memory) and a listing that ends, as long as no signal has
  arrived the cycle can always take a step until \<^verbatim>\<open>syncRepos\<close> has returned, it can be run on
  without a signal to a state where \<^verbatim>\<open>syncRepos\<close> has returned that value, and no run goes
  on for ever.
\<close>

theorem cycle_returns_lister_error:
  "reachable e config w s \<Longrightarrow>
   (\<forall>err. orch s = OReturned err \<longrightarrow> err = cycle_result e config w (requests s))
   \<and> worker_errors (trace s) = task_errors (outcomes s)
   \<and> (1 \<le> WorkerCount config \<and> mainpc s = MSelect \<and> (orch s = OStart \<or> running (orch s))
        \<longrightarrow> (\<exists>a. a \<noteq> Signal \<and> fire e config a s \<noteq> None))
   \<and> (1 \<le> WorkerCount config \<and> pool_fits e config \<and> paginates e config rank
        \<and> mainpc s = MSelect
        \<longrightarrow> (\<exists>as s'. Signal \<notin> set as \<and> run e config as s = Some s'
               \<and> orch s' = OReturned (cycle_result e config w (requests s'))))
   \<and> (paginates e config rank \<longrightarrow> wf {(s2, s1). \<exists>a. fire e config a s1 = Some s2})"
proof -
  assume r: "reachable e config w s"
  have "worker_errors (trace s) = task_errors (outcomes s)"
    using log_inv_reachable [OF r] by (simp add: log_inv_def)
  moreover have "\<exists>as s'. Signal \<notin> set as \<and> run e config as s = Some s'
      \<and> orch s' = OReturned (cycle_result e config w (requests s'))"
    if "1 \<le> WorkerCount config" "pool_fits e config" "paginates e config rank"
      "mainpc s = MSelect"
  proof -
    from cycle_can_return [OF that(3,1,2) r that(4)] obtain as s' err
      where run: "Signal \<notin> set as" "run e config as s = Some s'" "orch s' = OReturned err"
      by blast
    from r run(2) have "reachable e config w s'" by (rule reachable_run)
    then have "err = cycle_result e config w (requests s')" using run(3) by (rule returned_result)
    with run show ?thesis by blast
  qed
  ultimately show ?thesis
    using returned_result [OF r] cycle_progress [OF r] steps_terminate [of e config rank]
    by blast
qed

text \<open>
  The theorem of C1 on the small cycle: the clone of the second repository fails, the
  worker logs it, the lister succeeds, and the cycle returns \<^verbatim>\<open>nil\<close>.
\<close>

theorem cycle_returns_lister_error_witness:
  "reachable demo_env demo_config [] demo_final
   \<and> Signal \<notin> set demo_schedule
   \<and> run demo_env demo_config demo_schedule (init []) = Some demo_final
   \<and> orch demo_final = OReturned None
   \<and> cycle_result demo_env demo_config [] (requests demo_final) = None
   \<and> task_errors (outcomes demo_final) =
       [(''gone'', ''failed to clone repository: repository not found'')]
   \<and> worker_errors (trace demo_final) =
       [(''gone'', ''failed to clone repository: repository not found'')]
   \<and> 1 \<le> WorkerCount demo_config \<and> pool_fits demo_env demo_config
   \<and> paginates demo_env demo_config (\<lambda>page. 0)"
  using cycle_returns_lister_error [OF demo_reachable, of "\<lambda>page. 0"] demo_reachable demo_run
  by (simp add: demo_final_def demo_schedule_def paginates_def pool_fits_def demo_env_def
      demo_config_def repo_gone_def task_of_def)

section \<open>The pages of the lister\<close>







end
